theory Spec2Isabelle
  imports Complex_Main "HOL-Library.Word" "HOL-Library.Log_Nat"
begin

section \<open>JavaScript strings\<close>

text \<open>
  A JavaScript string is a sequence of 16-bit code units.  The literals of the scraper are
  ASCII, so \<open>js ''...''\<close> writes them down.
\<close>

type_synonym jsstring = "16 word list"

definition js :: "string \<Rightarrow> jsstring" where
  "js s = map of_char s"

text \<open>
  The characters that \<^verbatim>\<open>String.prototype.trim\<close> strips and that \<^verbatim>\<open>\s\<close> matches in a regular
  expression: WhiteSpace and LineTerminator of ECMAScript (TAB, LF, VT, FF, CR, SP, NBSP,
  U+1680, U+2000..U+200A, LS, PS, U+202F, U+205F, U+3000, BOM).
\<close>

definition is_space :: "16 word \<Rightarrow> bool" where
  "is_space c \<longleftrightarrow>
     c = 0x09 \<or> c = 0x0A \<or> c = 0x0B \<or> c = 0x0C \<or> c = 0x0D \<or> c = 0x20 \<or> c = 0xA0 \<or>
     c = 0x1680 \<or> (0x2000 \<le> c \<and> c \<le> 0x200A) \<or> c = 0x2028 \<or> c = 0x2029 \<or>
     c = 0x202F \<or> c = 0x205F \<or> c = 0x3000 \<or> c = 0xFEFF"

text \<open>\<^verbatim>\<open>s.trim()\<close>\<close>

definition trim :: "jsstring \<Rightarrow> jsstring" where
  "trim s = rev (dropWhile is_space (rev (dropWhile is_space s)))"

text \<open>
  \<^verbatim>\<open>s.replace(/\s\s+/g, " ")\<close>: the scan goes left to right; where two whitespace characters
  stand next to each other the whole run (the \<^verbatim>\<open>+\<close> is greedy) is replaced by one space and
  the scan goes on behind the run; any other character is copied.
\<close>

function replace_ws_runs :: "jsstring \<Rightarrow> jsstring" where
  "replace_ws_runs [] = []"
| "replace_ws_runs [c] = [c]"
| "replace_ws_runs (c # d # cs) =
     (if is_space c \<and> is_space d
      then 0x20 # replace_ws_runs (dropWhile is_space cs)
      else c # replace_ws_runs (d # cs))"
  by pat_completeness auto
termination
  by (relation "measure length") (auto simp: length_dropWhile_le less_Suc_eq_le le_SucI)

text \<open>
  The address of a heading (scraper.ts, line 82):
  \<^verbatim>\<open>$(headerElement).text().trim().replace(/\s\s+/g, " ")\<close>, applied to the text.
\<close>

definition normalize_address :: "jsstring \<Rightarrow> jsstring" where
  "normalize_address text = replace_ws_runs (trim text)"

text \<open>No two neighbouring characters are both whitespace.\<close>

fun no_adjacent_ws :: "jsstring \<Rightarrow> bool" where
  "no_adjacent_ws [] = True"
| "no_adjacent_ws [c] = True"
| "no_adjacent_ws (c # d # cs) = (\<not> (is_space c \<and> is_space d) \<and> no_adjacent_ws (d # cs))"

text \<open>Neither the first nor the last character is whitespace.\<close>

definition no_surrounding_ws :: "jsstring \<Rightarrow> bool" where
  "no_surrounding_ws s = (s = [] \<or> (\<not> is_space (hd s) \<and> \<not> is_space (last s)))"

section \<open>The parsed page\<close>

text \<open>
  Modelled from the spec: the HTML library (\<^verbatim>\<open>cheerio\<close>) is not part of the repository.  The
  scraper calls \<^verbatim>\<open>$(selector)\<close>, \<^verbatim>\<open>.next\<close>, \<^verbatim>\<open>.find\<close>, \<^verbatim>\<open>.children\<close>, \<^verbatim>\<open>.text\<close> and \<^verbatim>\<open>.get\<close>.  The spec's
  RecordExtractor: every heading node matching the selector marks one block; the heading's
  text content is the address; immediately following the heading is a sibling container, within
  it every row element is located, and each row has child spans for the key and the value.

  The page is taken as the HTML parser hands it over: a forest of text nodes, comments and
  elements; an element has its tag name, the class names of its \<^verbatim>\<open>class\<close> attribute and its
  child nodes.  Parsing the HTML text into this tree is the parser's work and is not modelled.
\<close>

datatype node =
    Text jsstring
  | Comment jsstring
  | Element string "string list" "node list"

text \<open>Selectors of the form \<^verbatim>\<open>tag\<close> and \<^verbatim>\<open>tag.class\<close>.\<close>

fun is_tag :: "string \<Rightarrow> node \<Rightarrow> bool" where
  "is_tag t (Element t' cs kids) = (t' = t)"
| "is_tag t (Text d) = False"
| "is_tag t (Comment d) = False"

fun is_tag_class :: "string \<Rightarrow> string \<Rightarrow> node \<Rightarrow> bool" where
  "is_tag_class t c (Element t' cs kids) = (t' = t \<and> c \<in> set cs)"
| "is_tag_class t c (Text d) = False"
| "is_tag_class t c (Comment d) = False"

text \<open>
  \<^verbatim>\<open>$(selector).get()\<close>: every matching element of the forest in document order.  An element
  is handed on together with the siblings that follow it, which is what \<^verbatim>\<open>.next\<close> looks at.
\<close>

fun select_all :: "(node \<Rightarrow> bool) \<Rightarrow> node list \<Rightarrow> (node \<times> node list) list" where
  "select_all P [] = []"
| "select_all P (Text d # rest) = select_all P rest"
| "select_all P (Comment d # rest) = select_all P rest"
| "select_all P (Element t cs kids # rest) =
     (if P (Element t cs kids) then [(Element t cs kids, rest)] else [])
     @ select_all P kids @ select_all P rest"

fun children :: "node \<Rightarrow> node list" where
  "children (Element t cs kids) = kids"
| "children (Text d) = []"
| "children (Comment d) = []"

text \<open>\<^verbatim>\<open>$(e).find(selector).get()\<close>: the matching descendants of \<open>e\<close> in document order.\<close>

definition find_sel :: "(node \<Rightarrow> bool) \<Rightarrow> node \<Rightarrow> node list" where
  "find_sel P e = map fst (select_all P (children e))"

text \<open>\<^verbatim>\<open>$(e).children(selector)\<close>: the matching child elements of \<open>e\<close>.\<close>

definition children_sel :: "(node \<Rightarrow> bool) \<Rightarrow> node \<Rightarrow> node list" where
  "children_sel P e = filter P (children e)"

text \<open>
  \<^verbatim>\<open>$(e).next(selector).get()\<close>: the first element among the following siblings of \<open>e\<close>
  (text and comments are passed over), kept if it matches the selector; so at most one element.
\<close>

fun next_element :: "node list \<Rightarrow> node option" where
  "next_element [] = None"
| "next_element (Text d # rest) = next_element rest"
| "next_element (Comment d # rest) = next_element rest"
| "next_element (Element t cs kids # rest) = Some (Element t cs kids)"

definition next_sel :: "(node \<Rightarrow> bool) \<Rightarrow> node list \<Rightarrow> node list" where
  "next_sel P following =
     (case next_element following of
        None \<Rightarrow> []
      | Some e \<Rightarrow> if P e then [e] else [])"

text \<open>\<^verbatim>\<open>.text()\<close>: the text nodes below the selected elements, concatenated.\<close>

fun text_of :: "node \<Rightarrow> jsstring" where
  "text_of (Text d) = d"
| "text_of (Comment d) = []"
| "text_of (Element t cs kids) = concat (map text_of kids)"

definition text_content :: "node list \<Rightarrow> jsstring" where
  "text_content es = concat (map text_of es)"

section \<open>Dates\<close>

text \<open>
  Modelled from the spec: the date library (\<^verbatim>\<open>moment\<close>) is not part of the repository.  The
  scraper calls \<^verbatim>\<open>moment(value, "D/MM/YYYY", true)\<close>, \<^verbatim>\<open>moment.invalid()\<close>, \<^verbatim>\<open>isValid()\<close> and
  \<^verbatim>\<open>format("YYYY-MM-DD")\<close>.  The spec's DateNormalizer: parse a text date against the fixed
  pattern in strict mode (the string must match the pattern exactly, a missing leading zero on
  the day is tolerated); the result is a valid calendar date or the invalid sentinel, never an
  exception; valid dates are rendered as \<^verbatim>\<open>YYYY-MM-DD\<close>.
\<close>

datatype moment = Invalid | Valid nat nat nat

definition isValid :: "moment \<Rightarrow> bool" where
  "isValid m = (m \<noteq> Invalid)"

definition is_digit :: "16 word \<Rightarrow> bool" where
  "is_digit c \<longleftrightarrow> 0x30 \<le> c \<and> c \<le> 0x39"

definition digit_value :: "16 word \<Rightarrow> nat" where
  "digit_value c = unat c - 48"

definition number_of :: "jsstring \<Rightarrow> nat" where
  "number_of ds = foldl (\<lambda>n c. 10 * n + digit_value c) 0 ds"

text \<open>The token \<^verbatim>\<open>D\<close>: one or two digits, two if there are two.\<close>

fun match1to2 :: "jsstring \<Rightarrow> (jsstring \<times> jsstring) option" where
  "match1to2 (a # b # rest) =
     (if is_digit a \<and> is_digit b then Some ([a, b], rest)
      else if is_digit a then Some ([a], b # rest)
      else None)"
| "match1to2 [a] = (if is_digit a then Some ([a], []) else None)"
| "match1to2 [] = None"

text \<open>The tokens \<^verbatim>\<open>MM\<close> and \<^verbatim>\<open>YYYY\<close> in strict mode: exactly \<open>n\<close> digits.\<close>

definition match_digits :: "nat \<Rightarrow> jsstring \<Rightarrow> (jsstring \<times> jsstring) option" where
  "match_digits n s =
     (if n \<le> length s \<and> list_all is_digit (take n s) then Some (take n s, drop n s) else None)"

text \<open>The literal \<^verbatim>\<open>/\<close> of the pattern.\<close>

fun match_slash :: "jsstring \<Rightarrow> jsstring option" where
  "match_slash (c # rest) = (if c = 0x2F then Some rest else None)"
| "match_slash [] = None"

definition isLeapYear :: "nat \<Rightarrow> bool" where
  "isLeapYear year \<longleftrightarrow> (year mod 4 = 0 \<and> year mod 100 \<noteq> 0) \<or> year mod 400 = 0"

definition daysInMonth :: "nat \<Rightarrow> nat \<Rightarrow> nat" where
  "daysInMonth year month =
     (if month = 2 then (if isLeapYear year then 29 else 28)
      else if month = 4 \<or> month = 6 \<or> month = 9 \<or> month = 11 then 30
      else 31)"

text \<open>
  Modelled from the spec: \<^verbatim>\<open>moment(value, "D/MM/YYYY", true)\<close> of the date library.  The tokens
  are matched one after the other from the front of the string, nothing may be skipped or left
  over (strict mode), and the numbers must be a date of the calendar (month 1 to 12, day 1 to
  the length of that month); otherwise the result is the invalid moment.
\<close>

definition moment_strict :: "jsstring \<Rightarrow> moment" where
  "moment_strict v =
     (case match1to2 v of
        None \<Rightarrow> Invalid
      | Some (dd, r1) \<Rightarrow>
     (case match_slash r1 of
        None \<Rightarrow> Invalid
      | Some r2 \<Rightarrow>
     (case match_digits 2 r2 of
        None \<Rightarrow> Invalid
      | Some (mm, r3) \<Rightarrow>
     (case match_slash r3 of
        None \<Rightarrow> Invalid
      | Some r4 \<Rightarrow>
     (case match_digits 4 r4 of
        None \<Rightarrow> Invalid
      | Some (yyyy, r5) \<Rightarrow>
          if r5 \<noteq> [] then Invalid
          else if 1 \<le> number_of mm \<and> number_of mm \<le> 12 \<and> 1 \<le> number_of dd \<and>
                  number_of dd \<le> daysInMonth (number_of yyyy) (number_of mm)
          then Valid (number_of yyyy) (number_of mm) (number_of dd)
          else Invalid)))))"

text \<open>Decimal digits of a number, and the library's \<^verbatim>\<open>zeroFill\<close>: padded with zeros on the left.\<close>

definition digit_char :: "nat \<Rightarrow> 16 word" where
  "digit_char k = of_nat (48 + k)"

fun decimal :: "nat \<Rightarrow> jsstring" where
  "decimal n = (if n < 10 then [digit_char n] else decimal (n div 10) @ [digit_char (n mod 10)])"

declare decimal.simps [simp del]

definition zeroFill :: "nat \<Rightarrow> nat \<Rightarrow> jsstring" where
  "zeroFill number targetLength =
     replicate (targetLength - length (decimal number)) 0x30 @ decimal number"

text \<open>
  Modelled from the spec: \<^verbatim>\<open>m.format("YYYY-MM-DD")\<close> of the date library; an invalid moment
  formats as \<^verbatim>\<open>Invalid date\<close>.
\<close>

fun format_YYYY_MM_DD :: "moment \<Rightarrow> jsstring" where
  "format_YYYY_MM_DD (Valid y m d) = zeroFill y 4 @ [0x2D] @ zeroFill m 2 @ [0x2D] @ zeroFill d 2"
| "format_YYYY_MM_DD Invalid = js ''Invalid date''"

text \<open>
  The spec's pattern \<^verbatim>\<open>D/MM/YYYY\<close> or \<^verbatim>\<open>DD/MM/YYYY\<close>, read as a shape of characters: one or
  two digits, a slash, two digits, a slash, four digits.  \<open>split_D_MM_YYYY\<close> cuts a string of
  that length at the slashes.
\<close>

definition split_D_MM_YYYY :: "jsstring \<Rightarrow> (jsstring \<times> jsstring \<times> jsstring) option" where
  "split_D_MM_YYYY v =
     (if length v = 9 \<or> length v = 10
      then let k = length v - 8 in
           if v ! k = 0x2F \<and> v ! (k + 3) = 0x2F
           then Some (take k v, take 2 (drop (k + 1) v), drop (k + 4) v)
           else None
      else None)"

definition matches_D_MM_YYYY :: "jsstring \<Rightarrow> bool" where
  "matches_D_MM_YYYY v =
     (case split_D_MM_YYYY v of
        None \<Rightarrow> False
      | Some (dd, mm, yyyy) \<Rightarrow>
          list_all is_digit dd \<and> list_all is_digit mm \<and> list_all is_digit yyyy)"

text \<open>The string has that shape and its numbers are a date of the calendar.\<close>

definition denotes_calendar_date :: "jsstring \<Rightarrow> bool" where
  "denotes_calendar_date v =
     (case split_D_MM_YYYY v of
        None \<Rightarrow> False
      | Some (dd, mm, yyyy) \<Rightarrow>
          list_all is_digit dd \<and> list_all is_digit mm \<and> list_all is_digit yyyy \<and>
          1 \<le> number_of mm \<and> number_of mm \<le> 12 \<and> 1 \<le> number_of dd \<and>
          number_of dd \<le> daysInMonth (number_of yyyy) (number_of mm))"

text \<open>The same year, month and day written as \<^verbatim>\<open>YYYY-MM-DD\<close>.\<close>

definition iso_of_D_MM_YYYY :: "jsstring \<Rightarrow> jsstring" where
  "iso_of_D_MM_YYYY v =
     (case split_D_MM_YYYY v of
        None \<Rightarrow> []
      | Some (dd, mm, yyyy) \<Rightarrow>
          yyyy @ [0x2D] @ mm @ [0x2D] @ (if length dd = 1 then 0x30 # dd else dd))"

text \<open>
  The received date as the record gets it (scraper.ts, line 113):
  \<^verbatim>\<open>receivedDate.isValid() ? receivedDate.format("YYYY-MM-DD") : ""\<close>
\<close>

definition receivedDate_text :: "moment \<Rightarrow> jsstring" where
  "receivedDate_text receivedDate =
     (if isValid receivedDate then format_YYYY_MM_DD receivedDate else [])"

section \<open>Extraction of the records\<close>

text \<open>The constants of the scraper.\<close>

definition DevelopmentApplicationMainUrl :: jsstring where
  "DevelopmentApplicationMainUrl =
     js ''https://eservices.loxtonwaikerie.sa.gov.au/eservice/daEnquiryInit.do?nodeNum=2811''"

definition CommentUrl :: jsstring where
  "CommentUrl = js ''mailto:requests@waikerie.com''"

record development_application =
  applicationNumber :: jsstring
  address :: jsstring
  description :: jsstring
  informationUrl :: jsstring
  scrapeDate :: jsstring
  receivedDate :: jsstring

text \<open>The other variant of the scraper (src/unnamed/part\_000) adds a comment URL.\<close>

record development_application_part000 = development_application +
  commentUrl :: jsstring

text \<open>
  The two messages that the parsing loop writes to the console:
  \<^verbatim>\<open>Found development application "..."\<close> and
  \<^verbatim>\<open>Ignoring development application "..." because the address is blank.\<close>
\<close>

datatype log_line = Found jsstring | Ignoring jsstring

text \<open>The variables of one heading: \<^verbatim>\<open>applicationNumber\<close>, \<^verbatim>\<open>description\<close>, \<^verbatim>\<open>receivedDate\<close>.\<close>

record heading_vars =
  var_applicationNumber :: jsstring
  var_description :: jsstring
  var_receivedDate :: moment

definition initial_vars :: heading_vars where
  "initial_vars =
     \<lparr>var_applicationNumber = [], var_description = [], var_receivedDate = Invalid\<rparr>"

text \<open>The chain of comparisons on the key of a row (scraper.ts, lines 91 to 98).\<close>

definition assign_row :: "jsstring \<Rightarrow> jsstring \<Rightarrow> heading_vars \<times> log_line list \<Rightarrow>
    heading_vars \<times> log_line list" where
  "assign_row key val st =
     (case st of (vars, console) \<Rightarrow>
        if key = js ''Type of Work'' then (vars\<lparr>var_description := val\<rparr>, console)
        else if key = js ''Application No.''
          then (vars\<lparr>var_applicationNumber := val\<rparr>, console @ [Found val])
        else if key = js ''Date Lodged''
          then (vars\<lparr>var_receivedDate := moment_strict val\<rparr>, console)
        else (vars, console))"

definition row_key :: "node \<Rightarrow> jsstring" where
  "row_key paragraphElement =
     trim (text_content (children_sel (is_tag_class ''span'' ''key'') paragraphElement))"

definition row_value :: "node \<Rightarrow> jsstring" where
  "row_value paragraphElement =
     trim (text_content (children_sel (is_tag_class ''span'' ''inputField'') paragraphElement))"

text \<open>The body of the loop over the rows, and the loop over the rows of one container.\<close>

definition paragraph_step :: "node \<Rightarrow> heading_vars \<times> log_line list \<Rightarrow>
    heading_vars \<times> log_line list" where
  "paragraph_step paragraphElement st =
     assign_row (row_key paragraphElement) (row_value paragraphElement) st"

definition div_step :: "node \<Rightarrow> heading_vars \<times> log_line list \<Rightarrow>
    heading_vars \<times> log_line list" where
  "div_step divElement st =
     fold paragraph_step (find_sel (is_tag_class ''p'' ''rowDataOnly'') divElement) st"

text \<open>
  The loop over \<^verbatim>\<open>$(headerElement).next("div").get()\<close>, started with the fresh variables of
  the heading; \<open>following\<close> are the siblings after the heading.
\<close>

definition scan_heading :: "node list \<Rightarrow> log_line list \<Rightarrow> heading_vars \<times> log_line list" where
  "scan_heading following console =
     fold div_step (next_sel (is_tag ''div'') following) (initial_vars, console)"

text \<open>
  The record that is pushed (scraper.ts, lines 107 to 114); \<open>today\<close> is what
  \<^verbatim>\<open>moment().format("YYYY-MM-DD")\<close> gives at that moment.
\<close>

definition make_application :: "jsstring \<Rightarrow> jsstring \<Rightarrow> heading_vars \<Rightarrow> development_application" where
  "make_application today addr vars =
     \<lparr>applicationNumber = var_applicationNumber vars,
      address = addr,
      description =
        (if var_description vars = [] then js ''No Description Provided'' else var_description vars),
      informationUrl = DevelopmentApplicationMainUrl,
      scrapeDate = today,
      receivedDate = receivedDate_text (var_receivedDate vars)\<rparr>"

definition make_application_part000 :: "jsstring \<Rightarrow> jsstring \<Rightarrow> heading_vars \<Rightarrow>
    development_application_part000" where
  "make_application_part000 today addr vars =
     \<lparr>applicationNumber = var_applicationNumber vars,
      address = addr,
      description =
        (if var_description vars = [] then js ''No Description Provided'' else var_description vars),
      informationUrl = DevelopmentApplicationMainUrl,
      scrapeDate = today,
      receivedDate = receivedDate_text (var_receivedDate vars),
      commentUrl = CommentUrl\<rparr>"

text \<open>
  The body of the loop over the headings (scraper.ts, lines 82 to 115), with the constructor
  of the record as a parameter since the two variants differ in nothing else.  The state is the
  list \<^verbatim>\<open>developmentApplications\<close> and the console.
\<close>

definition header_step :: "(jsstring \<Rightarrow> heading_vars \<Rightarrow> 'r) \<Rightarrow> node \<times> node list \<Rightarrow>
    'r list \<times> log_line list \<Rightarrow> 'r list \<times> log_line list" where
  "header_step make_record headerElement st =
     (case st of (developmentApplications, console) \<Rightarrow>
        let addr = normalize_address (text_content [fst headerElement]);
            (vars, console') = scan_heading (snd headerElement) console
        in if var_applicationNumber vars \<noteq> [] \<and> addr = []
             then (developmentApplications, console' @ [Ignoring (var_applicationNumber vars)])
           else if var_applicationNumber vars \<noteq> [] \<and> addr \<noteq> []
             then (developmentApplications @ [make_record addr vars], console')
           else (developmentApplications, console'))"

text \<open>
  The parsing stage of \<^verbatim>\<open>getResults\<close> (scraper.ts, lines 81 to 118; part\_000, lines 70 to
  104): from the parsed page to the list of records and the console output.  The two requests
  before it are network traffic and are not modelled.
\<close>

definition getResults :: "jsstring \<Rightarrow> node list \<Rightarrow> development_application list \<times> log_line list" where
  "getResults today page =
     fold (header_step (make_application today))
       (select_all (is_tag_class ''h4'' ''non_table_headers'') page) ([], [])"

definition getResults_part000 :: "jsstring \<Rightarrow> node list \<Rightarrow>
    development_application_part000 list \<times> log_line list" where
  "getResults_part000 today page =
     fold (header_step (make_application_part000 today))
       (select_all (is_tag_class ''h4'' ''non_table_headers'') page) ([], [])"

text \<open>
  For stating what the loops compute: the rows below a heading as pairs of key and value in
  document order, the assignments run over such pairs, the value of the last row with a given
  key, and what one heading adds to the list of records.
\<close>

definition heading_rows :: "node list \<Rightarrow> (jsstring \<times> jsstring) list" where
  "heading_rows following =
     map (\<lambda>p. (row_key p, row_value p))
       (concat (map (find_sel (is_tag_class ''p'' ''rowDataOnly'')) (next_sel (is_tag ''div'') following)))"

definition scan_rows :: "(jsstring \<times> jsstring) list \<Rightarrow> heading_vars \<times> log_line list \<Rightarrow>
    heading_vars \<times> log_line list" where
  "scan_rows rows st = fold (\<lambda>kv. assign_row (fst kv) (snd kv)) rows st"

definition last_value :: "jsstring \<Rightarrow> (jsstring \<times> jsstring) list \<Rightarrow> jsstring option" where
  "last_value key rows = map_of (rev rows) key"

definition heading_records :: "(jsstring \<Rightarrow> heading_vars \<Rightarrow> 'r) \<Rightarrow> node \<times> node list \<Rightarrow> 'r list" where
  "heading_records make_record headerElement = fst (header_step make_record headerElement ([], []))"

definition heading_console :: "node \<times> node list \<Rightarrow> log_line list" where
  "heading_console headerElement =
     snd (header_step (\<lambda>addr vars. ()) headerElement ([], []))"

text \<open>
  Two lists of rows with the same keys in the same order, and the same values except in the
  rows \<^verbatim>\<open>Date Lodged\<close>.
\<close>

definition rows_differ_only_in_date ::
    "(jsstring \<times> jsstring) list \<Rightarrow> (jsstring \<times> jsstring) list \<Rightarrow> bool" where
  "rows_differ_only_in_date rows rows' =
     list_all2 (\<lambda>kv kv'. fst kv' = fst kv \<and> (fst kv = js ''Date Lodged'' \<or> snd kv' = snd kv))
       rows rows'"

text \<open>A page for the end-to-end scenarios: one heading and its three rows.\<close>

definition fixture_row :: "string \<Rightarrow> jsstring \<Rightarrow> node" where
  "fixture_row key val =
     Element ''p'' [''rowDataOnly'']
       [Text [0x0A, 0x20],
        Element ''span'' [''key''] [Text (js key)],
        Text [0x20],
        Element ''span'' [''inputField''] [Text val],
        Text [0x0A]]"

definition fixture_heading :: "jsstring \<Rightarrow> node" where
  "fixture_heading addr = Element ''h4'' [''non_table_headers''] [Text addr]"

definition fixture_following :: "jsstring \<Rightarrow> jsstring \<Rightarrow> node list" where
  "fixture_following number lodged =
     [Text [0x0A, 0x20, 0x20],
      Element ''div'' []
        [fixture_row ''Type of Work'' (js ''Shed''),
         fixture_row ''Application No.'' number,
         fixture_row ''Date Lodged'' lodged],
      Text [0x0A]]"

definition fixture_block :: "jsstring \<Rightarrow> jsstring \<Rightarrow> jsstring \<Rightarrow> node list" where
  "fixture_block addr number lodged = fixture_heading addr # fixture_following number lodged"

definition fixture_page :: "jsstring \<Rightarrow> node list" where
  "fixture_page lodged =
     [Element ''html'' []
        [Element ''head'' [] [Element ''title'' [] [Text (js ''Enquiry'')]],
         Element ''body'' []
           (Text [0x0A] # fixture_block (js ''12 Smith St, Loxton'') (js ''2019/0045'') lodged)]]"

text \<open>The same page with a second heading after the first.\<close>

definition fixture_page_two :: "jsstring \<Rightarrow> node list" where
  "fixture_page_two lodged =
     [Element ''html'' []
        [Element ''head'' [] [Element ''title'' [] [Text (js ''Enquiry'')]],
         Element ''body'' []
           (Text [0x0A] # fixture_block (js ''12 Smith St, Loxton'') (js ''2019/0045'') lodged
            @ fixture_block (js ''7 Jones Rd, Waikerie'') (js ''2019/0046'') (js ''15/04/2019''))]]"

text \<open>Further pages and records for the scenarios.\<close>

definition fixture_number_only :: "node list" where
  "fixture_number_only = [Element ''div'' [] [fixture_row ''Application No.'' (js ''2019/0045'')]]"

definition fixture_work_only :: "node list" where
  "fixture_work_only = [Element ''div'' [] [fixture_row ''Type of Work'' (js ''Shed'')]]"

definition fixture_second_block :: "node list" where
  "fixture_second_block = fixture_block (js ''7 Jones Rd, Waikerie'') (js ''2019/0046'') (js ''15/04/2019'')"

text \<open>Rows with repeated keys below one heading; the last date is not a date of the calendar.\<close>

definition fixture_repeated_rows :: "node list" where
  "fixture_repeated_rows =
     [Element ''div'' []
        [fixture_row ''Date Lodged'' (js ''3/04/2019''),
         fixture_row ''Application No.'' (js ''2019/0001''),
         fixture_row ''Type of Work'' (js ''Shed''),
         fixture_row ''Application No.'' (js ''2019/0045''),
         fixture_row ''Type of Work'' (js ''Verandah''),
         fixture_row ''Date Lodged'' (js ''31/02/2019'')]]"

section \<open>Numbers\<close>

text \<open>
  A JavaScript number is an IEEE 754 double: \<open>Finite x\<close> is the finite double of value \<open>x\<close>,
  besides the two infinities and NaN.  The sign of a zero is not kept: no comparison shows it.
  An arithmetic operation takes the exact result and rounds it to the nearest double, a tie to
  the one with the even significand.
\<close>

datatype number = Finite real | PlusInfinity | MinusInfinity | NaN

text \<open>Rounding to the nearest integer, a tie to the even one.\<close>

definition round_half_even :: "real \<Rightarrow> int" where
  "round_half_even q =
     (let f = \<lfloor>q\<rfloor> in
      if q - of_int f < 1 / 2 then f
      else if 1 / 2 < q - of_int f then f + 1
      else if even f then f else f + 1)"

text \<open>The exponent \<open>e\<close> with \<open>2 powi e \<le> x < 2 powi (e + 1)\<close>, for \<open>x > 0\<close>.\<close>

definition binade :: "real \<Rightarrow> int" where
  "binade x =
     (if 1 \<le> x then bitlen \<lfloor>x\<rfloor> - 1
      else let j = bitlen \<lfloor>1 / x\<rfloor> in if x * 2 ^ nat (j - 1) = 1 then 1 - j else - j)"

text \<open>
  The distance between neighbouring doubles around \<open>x\<close>: 53 significant bits, and below
  \<open>2 powi (- 1022)\<close> the fixed step of the subnormal numbers.
\<close>

definition ulp :: "real \<Rightarrow> real" where
  "ulp x = 2 powi (max (binade \<bar>x\<bar>) (- 1022) - 52)"

definition round_nearest :: "real \<Rightarrow> real" where
  "round_nearest x =
     (if x = 0 then 0 else sgn x * (ulp x * of_int (round_half_even (\<bar>x\<bar> / ulp x))))"

text \<open>The rounded result as a number; beyond the largest double it is an infinity.\<close>

definition to_number :: "real \<Rightarrow> number" where
  "to_number x =
     (let y = round_nearest x in
      if 2 ^ 1024 \<le> \<bar>y\<bar> then (if 0 < x then PlusInfinity else MinusInfinity) else Finite y)"

text \<open>The real numbers that are doubles.\<close>

definition representable :: "real \<Rightarrow> bool" where
  "representable x = (to_number x = Finite x)"

text \<open>The operators \<^verbatim>\<open>-\<close> (unary and binary), \<^verbatim>\<open>+\<close> and \<^verbatim>\<open>*\<close> on numbers.\<close>

fun number_neg :: "number \<Rightarrow> number" where
  "number_neg (Finite a) = Finite (- a)"
| "number_neg PlusInfinity = MinusInfinity"
| "number_neg MinusInfinity = PlusInfinity"
| "number_neg NaN = NaN"

fun number_add :: "number \<Rightarrow> number \<Rightarrow> number" where
  "number_add (Finite a) (Finite b) = to_number (a + b)"
| "number_add (Finite a) PlusInfinity = PlusInfinity"
| "number_add (Finite a) MinusInfinity = MinusInfinity"
| "number_add PlusInfinity (Finite b) = PlusInfinity"
| "number_add PlusInfinity PlusInfinity = PlusInfinity"
| "number_add MinusInfinity (Finite b) = MinusInfinity"
| "number_add MinusInfinity MinusInfinity = MinusInfinity"
| "number_add x y = NaN"

definition number_sub :: "number \<Rightarrow> number \<Rightarrow> number" where
  "number_sub x y = number_add x (number_neg y)"

fun number_mul :: "number \<Rightarrow> number \<Rightarrow> number" where
  "number_mul (Finite a) (Finite b) = to_number (a * b)"
| "number_mul (Finite a) PlusInfinity =
     (if a = 0 then NaN else if 0 < a then PlusInfinity else MinusInfinity)"
| "number_mul (Finite a) MinusInfinity =
     (if a = 0 then NaN else if 0 < a then MinusInfinity else PlusInfinity)"
| "number_mul PlusInfinity (Finite b) =
     (if b = 0 then NaN else if 0 < b then PlusInfinity else MinusInfinity)"
| "number_mul MinusInfinity (Finite b) =
     (if b = 0 then NaN else if 0 < b then MinusInfinity else PlusInfinity)"
| "number_mul PlusInfinity PlusInfinity = PlusInfinity"
| "number_mul PlusInfinity MinusInfinity = MinusInfinity"
| "number_mul MinusInfinity PlusInfinity = MinusInfinity"
| "number_mul MinusInfinity MinusInfinity = PlusInfinity"
| "number_mul x y = NaN"

text \<open>\<^verbatim>\<open>Math.floor\<close> and \<^verbatim>\<open>Math.ceil\<close>; the floor and the ceiling of a double are doubles.\<close>

fun Math_floor :: "number \<Rightarrow> number" where
  "Math_floor (Finite a) = Finite (of_int \<lfloor>a\<rfloor>)"
| "Math_floor x = x"

fun Math_ceil :: "number \<Rightarrow> number" where
  "Math_ceil (Finite a) = Finite (of_int \<lceil>a\<rceil>)"
| "Math_ceil x = x"

section \<open>Random numbers and the month to scrape again\<close>

text \<open>
  \<^verbatim>\<open>getRandom\<close> (scraper.ts, lines 123 to 125):
  \<^verbatim>\<open>Math.floor(Math.random() * (Math.floor(maximum) - Math.ceil(minimum))) + Math.ceil(minimum)\<close>;
  \<open>random\<close> is the number that \<^verbatim>\<open>Math.random()\<close> returned, a double in \<open>[0, 1)\<close>.
\<close>

definition getRandom :: "number \<Rightarrow> number \<Rightarrow> number \<Rightarrow> number" where
  "getRandom random minimum maximum =
     number_add
       (Math_floor (number_mul random (number_sub (Math_floor maximum) (Math_ceil minimum))))
       (Math_ceil minimum)"

text \<open>
  The pause before the second request (scraper.ts, line 68), in milliseconds:
  \<^verbatim>\<open>2000 + getRandom(0, 5) * 1000\<close>.
\<close>

definition sleep_milliseconds :: "number \<Rightarrow> number" where
  "sleep_milliseconds random =
     number_add (Finite 2000) (number_mul (getRandom random (Finite 0) (Finite 5)) (Finite 1000))"

text \<open>
  \<^verbatim>\<open>monthCount\<close> and \<^verbatim>\<open>randomMonth\<close> (scraper.ts, lines 149 and 150); \<open>year\<close> is
  \<^verbatim>\<open>moment().year()\<close> and \<open>month\<close> is \<^verbatim>\<open>moment().month()\<close>, which counts from 0 (January) to 11.
  Both are integers far below \<open>2 ^ 53\<close>, so \<^verbatim>\<open>monthCount\<close> is computed without rounding and is
  an integer here; \<^verbatim>\<open>monthCount + 1\<close> and \<^verbatim>\<open>getRandom\<close> are computed on numbers.
\<close>

definition monthCount :: "int \<Rightarrow> int \<Rightarrow> int" where
  "monthCount year month = year * 12 + month - (2012 * 12 + 1)"

definition randomMonth :: "number \<Rightarrow> int \<Rightarrow> int \<Rightarrow> number" where
  "randomMonth random year month =
     getRandom random (Finite 1) (number_add (Finite (of_int (monthCount year month))) (Finite 1))"

section \<open>The table\<close>

text \<open>
  Modelled from the spec: the database engine (\<^verbatim>\<open>sqlite3\<close>) is not part of the repository; the
  spec treats it as a key-value upsert sink keyed by the reference number.  The table \<^verbatim>\<open>data\<close>
  has the primary key \<^verbatim>\<open>council_reference\<close>, its first column: a map from the key to the row.
  \<open>engine_error\<close> is the error that the engine reports to the callback, if any; the promise is
  then rejected with it.
\<close>

type_synonym database = "jsstring \<rightharpoonup> jsstring list"

datatype report = Saved | Inserted | Skipped

text \<open>\<^verbatim>\<open>insertRow\<close> of scraper.ts, lines 35 to 56: \<^verbatim>\<open>insert or replace into [data] values (?, ?, ?, ?, ?, ?)\<close>\<close>

definition insertRow :: "database \<Rightarrow> development_application \<Rightarrow> 'e option \<Rightarrow>
    'e + database \<times> report" where
  "insertRow database developmentApplication engine_error =
     (case engine_error of
        Some error \<Rightarrow> Inl error
      | None \<Rightarrow>
          Inr (database(applicationNumber developmentApplication \<mapsto>
                 [applicationNumber developmentApplication,
                  address developmentApplication,
                  description developmentApplication,
                  informationUrl developmentApplication,
                  scrapeDate developmentApplication,
                  receivedDate developmentApplication]),
               Saved))"

text \<open>
  \<^verbatim>\<open>insertRow\<close> of part\_000, lines 27 to 53:
  \<^verbatim>\<open>insert or ignore into [data] values (?, ?, ?, ?, ?, ?, ?)\<close>; \<^verbatim>\<open>this.changes\<close> is 0 when the key
  is in the table already.
\<close>

definition insertRow_part000 :: "database \<Rightarrow> development_application_part000 \<Rightarrow> 'e option \<Rightarrow>
    'e + database \<times> report" where
  "insertRow_part000 database developmentApplication engine_error =
     (case engine_error of
        Some error \<Rightarrow> Inl error
      | None \<Rightarrow>
          (case database (applicationNumber developmentApplication) of
             Some row \<Rightarrow> Inr (database, Skipped)
           | None \<Rightarrow>
               Inr (database(applicationNumber developmentApplication \<mapsto>
                      [applicationNumber developmentApplication,
                       address developmentApplication,
                       description developmentApplication,
                       informationUrl developmentApplication,
                       commentUrl developmentApplication,
                       scrapeDate developmentApplication,
                       receivedDate developmentApplication]),
                    Inserted)))"

text \<open>
  The loop of \<^verbatim>\<open>main\<close> over the records (scraper.ts, lines 144 and 145, and again 154 and
  155): one \<^verbatim>\<open>insertRow\<close> after the other; the first error ends the loop and leaves the table as
  it is then.  \<open>engine_errors\<close> holds what the engine reports call by call.
\<close>

fun insertRows :: "database \<Rightarrow> development_application list \<Rightarrow> 'e option list \<Rightarrow>
    database \<times> 'e option" where
  "insertRows database [] engine_errors = (database, None)"
| "insertRows database (developmentApplication # developmentApplications) engine_errors =
     (case insertRow database developmentApplication
             (case engine_errors of [] \<Rightarrow> None | engine_error # later \<Rightarrow> engine_error) of
        Inl error \<Rightarrow> (database, Some error)
      | Inr (database', outcome) \<Rightarrow> insertRows database' developmentApplications (tl engine_errors))"

text \<open>The row that a record becomes, column by column, and two records for the scenarios.\<close>

definition row_of :: "development_application \<Rightarrow> jsstring list" where
  "row_of da =
     [applicationNumber da, address da, description da, informationUrl da, scrapeDate da,
      receivedDate da]"

definition row_of_part000 :: "development_application_part000 \<Rightarrow> jsstring list" where
  "row_of_part000 da =
     [applicationNumber da, address da, description da, informationUrl da, commentUrl da,
      scrapeDate da, receivedDate da]"

definition fixture_application :: "jsstring \<Rightarrow> development_application" where
  "fixture_application addr =
     \<lparr>applicationNumber = js ''2019/0045'', address = addr, description = js ''Shed'',
      informationUrl = DevelopmentApplicationMainUrl, scrapeDate = js ''2019-04-10'',
      receivedDate = js ''2019-04-03''\<rparr>"

definition fixture_application_part000 :: "jsstring \<Rightarrow> development_application_part000" where
  "fixture_application_part000 addr =
     \<lparr>applicationNumber = js ''2019/0045'', address = addr, description = js ''Shed'',
      informationUrl = DevelopmentApplicationMainUrl, scrapeDate = js ''2019-04-10'',
      receivedDate = js ''2019-04-03'', commentUrl = CommentUrl\<rparr>"

section \<open>Whitespace normalisation\<close>

lemma replace_ws_runs_Nil_iff: "replace_ws_runs s = [] \<longleftrightarrow> s = []"
  by (induction s rule: replace_ws_runs.induct) auto

lemma is_space_hd_replace: "s \<noteq> [] \<Longrightarrow> is_space (hd (replace_ws_runs s)) = is_space (hd s)"
  by (induction s rule: replace_ws_runs.induct) (auto simp: is_space_def)

lemma no_adjacent_ws_Cons:
  "no_adjacent_ws (c # s) = ((s = [] \<or> \<not> (is_space c \<and> is_space (hd s))) \<and> no_adjacent_ws s)"
  by (cases s) auto

lemma hd_dropWhile_not_space: "dropWhile is_space s \<noteq> [] \<Longrightarrow> \<not> is_space (hd (dropWhile is_space s))"
  using hd_dropWhile [of is_space s] by simp

lemma no_adjacent_replace: "no_adjacent_ws (replace_ws_runs s)"
proof (induction s rule: replace_ws_runs.induct)
  case (3 c d cs)
  show ?case
  proof (cases "is_space c \<and> is_space d")
    case True
    have "replace_ws_runs (dropWhile is_space cs) = [] \<or>
          \<not> is_space (hd (replace_ws_runs (dropWhile is_space cs)))"
    proof (cases "dropWhile is_space cs = []")
      case True
      then show ?thesis by (simp del: dropWhile_eq_Nil_conv)
    next
      case False
      then show ?thesis
        using is_space_hd_replace [OF False] hd_dropWhile_not_space [OF False] by simp
    qed
    with True 3 show ?thesis
      by (simp add: no_adjacent_ws_Cons)
  next
    case False
    have "is_space (hd (replace_ws_runs (d # cs))) = is_space d"
      using is_space_hd_replace [of "d # cs"] by simp
    with False 3 show ?thesis
      by (simp only: replace_ws_runs.simps if_False no_adjacent_ws_Cons) auto
  qed
qed simp_all

lemma last_replace: "s \<noteq> [] \<Longrightarrow> \<not> is_space (last s) \<Longrightarrow> last (replace_ws_runs s) = last s"
proof (induction s rule: replace_ws_runs.induct)
  case (3 c d cs)
  show ?case
  proof (cases "is_space c \<and> is_space d")
    case True
    with "3.prems" have cs: "cs \<noteq> []" "\<not> is_space (last cs)"
      by (auto split: if_splits)
    then have ne: "dropWhile is_space cs \<noteq> []"
      by (metis dropWhile_eq_Nil_conv last_in_set)
    then have "last (dropWhile is_space cs) = last cs"
      by (metis append_self_conv2 last_appendR takeWhile_dropWhile_id)
    with True "3.IH"(1) cs ne show ?thesis
      by (simp add: replace_ws_runs_Nil_iff del: dropWhile_eq_Nil_conv)
  next
    case False
    then have step: "replace_ws_runs (c # d # cs) = c # replace_ws_runs (d # cs)"
      by auto
    from False "3.IH"(2) "3.prems" have "last (replace_ws_runs (d # cs)) = last (d # cs)"
      by simp
    then show ?thesis
      unfolding step by (simp add: replace_ws_runs_Nil_iff)
  qed
qed simp_all

lemma trim_no_surrounding: "no_surrounding_ws (trim s)"
proof (cases "trim s = []")
  case True
  then show ?thesis by (simp add: no_surrounding_ws_def)
next
  case False
  let ?t = "dropWhile is_space s"
  let ?u = "dropWhile is_space (rev ?t)"
  from False have u: "?u \<noteq> []" by (simp add: trim_def)
  have "?t = [] \<Longrightarrow> ?u = []" by (simp del: dropWhile_eq_Nil_conv)
  with u have t: "?t \<noteq> []" by blast
  have "last (trim s) = hd ?u"
    using u by (simp add: trim_def last_rev)
  then have l: "\<not> is_space (last (trim s))"
    using hd_dropWhile_not_space [OF u] by simp
  have "last ?u = last (rev ?t)"
    using u by (metis append_self_conv2 last_appendR takeWhile_dropWhile_id)
  then have "hd (trim s) = hd ?t"
    using u t by (simp add: trim_def hd_rev last_rev)
  then have "\<not> is_space (hd (trim s))"
    using hd_dropWhile_not_space [OF t] by simp
  with l show ?thesis by (simp add: no_surrounding_ws_def)
qed

lemma replace_no_surrounding: "no_surrounding_ws s \<Longrightarrow> no_surrounding_ws (replace_ws_runs s)"
  by (auto simp: no_surrounding_ws_def replace_ws_runs_Nil_iff is_space_hd_replace last_replace)

lemma replace_run_front:
  assumes "\<forall>c \<in> set run. is_space c" and "2 \<le> length run" and "ys = [] \<or> \<not> is_space (hd ys)"
  shows "replace_ws_runs (run @ ys) = 0x20 # replace_ws_runs ys"
proof -
  from assms(2) obtain c d rest where run: "run = c # d # rest"
    by (cases run; cases "tl run") auto
  with assms(1) have "dropWhile is_space (rest @ ys) = dropWhile is_space ys"
    by (simp add: dropWhile_append)
  also have "\<dots> = ys"
    using assms(3) by (cases ys) auto
  finally show ?thesis
    using run assms(1) by simp
qed

lemma replace_run_middle:
  assumes "\<forall>c \<in> set run. is_space c" and "2 \<le> length run" and "ys = [] \<or> \<not> is_space (hd ys)"
  shows "xs = [] \<or> \<not> is_space (last xs) \<Longrightarrow>
         replace_ws_runs (xs @ run @ ys) = replace_ws_runs xs @ 0x20 # replace_ws_runs ys"
proof (induction xs rule: replace_ws_runs.induct)
  case 1
  show ?case using replace_run_front [OF assms] by simp
next
  case (2 c)
  from assms(2) obtain r rest where run: "run = r # rest" by (cases run) auto
  from 2 have "\<not> is_space c" by simp
  then show ?case
    using replace_run_front [OF assms] run by simp
next
  case (3 c d cs)
  show ?case
  proof (cases "is_space c \<and> is_space d")
    case True
    with "3.prems" have cs: "cs \<noteq> []" "\<not> is_space (last cs)"
      by (auto split: if_splits)
    then have ne: "dropWhile is_space cs \<noteq> []"
      by (metis dropWhile_eq_Nil_conv last_in_set)
    then have l: "last (dropWhile is_space cs) = last cs"
      by (metis append_self_conv2 last_appendR takeWhile_dropWhile_id)
    have "last cs \<in> set cs"
      using cs by simp
    then have "dropWhile is_space (cs @ run @ ys) = dropWhile is_space cs @ run @ ys"
      using cs(2) by (rule dropWhile_append1)
    with True "3.IH"(1) cs ne l show ?thesis
      by (simp del: dropWhile_eq_Nil_conv)
  next
    case False
    then have step: "replace_ws_runs (c # d # zs) = c # replace_ws_runs (d # zs)" for zs
      by auto
    from "3.prems" have "d # cs = [] \<or> \<not> is_space (last (d # cs))"
      by simp
    with False "3.IH"(2) have "replace_ws_runs ((d # cs) @ run @ ys) =
        replace_ws_runs (d # cs) @ 0x20 # replace_ws_runs ys"
      by blast
    then show ?thesis
      using step [of cs] step [of "cs @ run @ ys"] by simp
  qed
qed

lemma replace_id: "no_adjacent_ws s \<Longrightarrow> replace_ws_runs s = s"
  by (induction s rule: replace_ws_runs.induct) auto

section \<open>The loops in closed form\<close>

lemma key_literals:
  "js ''Type of Work'' \<noteq> js ''Application No.''"
  "js ''Type of Work'' \<noteq> js ''Date Lodged''"
  "js ''Application No.'' \<noteq> js ''Date Lodged''"
  "js ''Application No.'' \<noteq> js ''Type of Work''"
  "js ''Date Lodged'' \<noteq> js ''Type of Work''"
  "js ''Date Lodged'' \<noteq> js ''Application No.''"
  by (simp_all add: js_def)

lemma scan_rows_snoc: "scan_rows (rows @ [kv]) st = assign_row (fst kv) (snd kv) (scan_rows rows st)"
  by (simp add: scan_rows_def)

lemma last_value_Nil: "last_value key [] = None"
  by (simp add: last_value_def)

lemma last_value_snoc:
  "last_value key (rows @ [kv]) = (if fst kv = key then Some (snd kv) else last_value key rows)"
  by (cases kv) (simp add: last_value_def)

lemma scan_rows_closed:
  "scan_rows rows (vars, console) =
     (\<lparr>var_applicationNumber =
         (case last_value (js ''Application No.'') rows of
            None \<Rightarrow> var_applicationNumber vars | Some v \<Rightarrow> v),
       var_description =
         (case last_value (js ''Type of Work'') rows of
            None \<Rightarrow> var_description vars | Some v \<Rightarrow> v),
       var_receivedDate =
         (case last_value (js ''Date Lodged'') rows of
            None \<Rightarrow> var_receivedDate vars | Some v \<Rightarrow> moment_strict v)\<rparr>,
      console @ map (\<lambda>kv. Found (snd kv)) (filter (\<lambda>kv. fst kv = js ''Application No.'') rows))"
proof (induction rows rule: rev_induct)
  case Nil
  show ?case by (simp add: scan_rows_def last_value_Nil)
next
  case (snoc kv rows)
  consider (work) "fst kv = js ''Type of Work''" | (number) "fst kv = js ''Application No.''"
    | (lodged) "fst kv = js ''Date Lodged''"
    | (other) "fst kv \<noteq> js ''Type of Work''" "fst kv \<noteq> js ''Application No.''"
        "fst kv \<noteq> js ''Date Lodged''"
    by blast
  then show ?case
  proof cases
    case work
    then show ?thesis
      unfolding scan_rows_snoc snoc.IH
      by (simp add: assign_row_def last_value_snoc key_literals)
  next
    case number
    then show ?thesis
      unfolding scan_rows_snoc snoc.IH
      by (simp add: assign_row_def last_value_snoc key_literals)
  next
    case lodged
    then show ?thesis
      unfolding scan_rows_snoc snoc.IH
      by (simp add: assign_row_def last_value_snoc key_literals)
  next
    case other
    then show ?thesis
      unfolding scan_rows_snoc snoc.IH
      by (simp add: assign_row_def last_value_snoc)
  qed
qed

lemma fold_div_step:
  "fold div_step ds st =
     scan_rows (map (\<lambda>p. (row_key p, row_value p))
       (concat (map (find_sel (is_tag_class ''p'' ''rowDataOnly'')) ds))) st"
proof (induction ds arbitrary: st)
  case Nil
  show ?case by (simp add: scan_rows_def)
next
  case (Cons d ds)
  have "div_step d st =
        scan_rows (map (\<lambda>p. (row_key p, row_value p)) (find_sel (is_tag_class ''p'' ''rowDataOnly'') d)) st"
    by (simp add: div_step_def scan_rows_def fold_map comp_def paragraph_step_def [abs_def])
  then show ?case
    using Cons [of "div_step d st"] by (simp add: scan_rows_def)
qed

lemma scan_heading_rows:
  "scan_heading following console = scan_rows (heading_rows following) (initial_vars, console)"
  by (simp add: scan_heading_def heading_rows_def fold_div_step)

lemma header_step_closed:
  "header_step make_record headerElement (das, console) =
     (let addr = normalize_address (text_content [fst headerElement]);
          vars = fst (scan_rows (heading_rows (snd headerElement)) (initial_vars, []));
          found = snd (scan_rows (heading_rows (snd headerElement)) (initial_vars, []))
      in (das @ (if var_applicationNumber vars \<noteq> [] \<and> addr \<noteq> [] then [make_record addr vars] else []),
          console @ found @
            (if var_applicationNumber vars \<noteq> [] \<and> addr = []
             then [Ignoring (var_applicationNumber vars)] else [])))"
  by (simp add: header_step_def scan_heading_rows scan_rows_closed Let_def)

lemma heading_records_closed:
  "heading_records make_record headerElement =
     (let addr = normalize_address (text_content [fst headerElement]);
          vars = fst (scan_rows (heading_rows (snd headerElement)) (initial_vars, []))
      in if var_applicationNumber vars \<noteq> [] \<and> addr \<noteq> [] then [make_record addr vars] else [])"
  by (simp add: heading_records_def header_step_closed Let_def)

lemma heading_console_closed:
  "heading_console headerElement =
     (let addr = normalize_address (text_content [fst headerElement]);
          vars = fst (scan_rows (heading_rows (snd headerElement)) (initial_vars, []));
          found = snd (scan_rows (heading_rows (snd headerElement)) (initial_vars, []))
      in found @ (if var_applicationNumber vars \<noteq> [] \<and> addr = []
             then [Ignoring (var_applicationNumber vars)] else []))"
  by (simp add: heading_console_def header_step_closed Let_def)

lemma header_step_split:
  "header_step make_record headerElement (das, console) =
     (das @ heading_records make_record headerElement, console @ heading_console headerElement)"
  by (simp add: header_step_closed heading_records_closed heading_console_closed Let_def)

lemma fold_header_step:
  "fold (header_step make_record) hs (das, console) =
     (das @ concat (map (heading_records make_record) hs), console @ concat (map heading_console hs))"
  by (induction hs arbitrary: das console) (simp_all add: header_step_split)

lemma getResults_closed:
  "getResults today page =
     (concat (map (heading_records (make_application today))
        (select_all (is_tag_class ''h4'' ''non_table_headers'') page)),
      concat (map heading_console (select_all (is_tag_class ''h4'' ''non_table_headers'') page)))"
  by (simp add: getResults_def fold_header_step)

lemma getResults_part000_closed:
  "getResults_part000 today page =
     (concat (map (heading_records (make_application_part000 today))
        (select_all (is_tag_class ''h4'' ''non_table_headers'') page)),
      concat (map heading_console (select_all (is_tag_class ''h4'' ''non_table_headers'') page)))"
  by (simp add: getResults_part000_def fold_header_step)

lemma emitted_record:
  assumes "r \<in> set (concat (map (heading_records make_record) hs))"
  shows "\<exists>h \<in> set hs. \<exists>vars. var_applicationNumber vars \<noteq> [] \<and>
           normalize_address (text_content [fst h]) \<noteq> [] \<and>
           vars = fst (scan_heading (snd h) []) \<and>
           r = make_record (normalize_address (text_content [fst h])) vars"
  using assms
  by (auto simp: heading_records_closed scan_heading_rows Let_def split: if_splits)

section \<open>Rounding\<close>

lemma pow2_neg: "0 \<le> k \<Longrightarrow> (2::real) powi (- k) = 1 / 2 ^ nat k"
  by (simp add: power_int_minus_divide power_int_nonneg_exp)

lemma pow2_pos: "0 \<le> k \<Longrightarrow> (2::real) powi k = 2 ^ nat k"
  by (simp add: power_int_nonneg_exp)

lemma binade_bounds:
  assumes "0 < x"
  shows "2 powi (binade x) \<le> x \<and> x < 2 powi (binade x + 1)"
proof (cases "1 \<le> x")
  case True
  let ?N = "\<lfloor>x\<rfloor>" and ?L = "bitlen \<lfloor>x\<rfloor>"
  from True have N: "0 < ?N" by simp
  note b = bitlen_bounds [OF N]
  from N have L: "1 \<le> ?L"
    using bitlen_eq_zero_iff [of ?N] bitlen_nonneg [of ?N] by linarith
  have "real_of_int (2 ^ nat (?L - 1)) \<le> real_of_int ?N"
    using b by (simp only: of_int_le_iff)
  also have "\<dots> \<le> x" by simp
  finally have lo: "2 powi (?L - 1) \<le> x"
    using L by (simp add: pow2_pos)
  have "?N + 1 \<le> 2 ^ nat ?L" using b by simp
  then have "real_of_int (?N + 1) \<le> real_of_int (2 ^ nat ?L)"
    by (simp only: of_int_le_iff)
  then have "real_of_int ?N + 1 \<le> 2 ^ nat ?L" by simp
  moreover have "x < real_of_int ?N + 1" by linarith
  ultimately have "x < 2 ^ nat ?L" by linarith
  then have hi: "x < 2 powi ?L"
    using L by (simp add: pow2_pos)
  from True lo hi show ?thesis by (simp add: binade_def)
next
  case False
  let ?y = "1 / x"
  let ?N = "\<lfloor>?y\<rfloor>" and ?L = "bitlen \<lfloor>?y\<rfloor>"
  from False assms have y: "1 < ?y" by simp
  then have N: "0 < ?N" by simp
  note b = bitlen_bounds [OF N]
  from N have L: "1 \<le> ?L"
    using bitlen_eq_zero_iff [of ?N] bitlen_nonneg [of ?N] by linarith
  have "real_of_int (2 ^ nat (?L - 1)) \<le> real_of_int ?N"
    using b by (simp only: of_int_le_iff)
  also have "\<dots> \<le> ?y" by simp
  finally have lo: "2 ^ nat (?L - 1) \<le> ?y" by simp
  have "?N + 1 \<le> 2 ^ nat ?L" using b by simp
  then have "real_of_int (?N + 1) \<le> real_of_int (2 ^ nat ?L)"
    by (simp only: of_int_le_iff)
  then have "real_of_int ?N + 1 \<le> 2 ^ nat ?L" by simp
  moreover have "?y < real_of_int ?N + 1" by linarith
  ultimately have hi: "?y < 2 ^ nat ?L" by linarith
  from lo assms have x_le: "x \<le> 1 / 2 ^ nat (?L - 1)"
    by (simp add: field_simps)
  from hi assms have x_gt: "1 / 2 ^ nat ?L < x"
    by (simp add: field_simps)
  have step: "(2::real) ^ nat ?L = 2 * 2 ^ nat (?L - 1)"
    using L by (metis Suc_nat_eq_nat_zadd1 add.commute diff_add_cancel diff_ge_0_iff_ge power_Suc)
  show ?thesis
  proof (cases "x * 2 ^ nat (?L - 1) = 1")
    case True
    then have x: "x = 1 / 2 ^ nat (?L - 1)"
      by (simp add: field_simps)
    have b1: "binade x = 1 - ?L"
      using False True by (simp add: binade_def Let_def)
    have "(2::real) powi (1 - ?L) = 1 / 2 ^ nat (?L - 1)"
      using pow2_neg [of "?L - 1"] L by simp
    moreover have "(2::real) powi (1 - ?L + 1) = 2 * (2 powi (1 - ?L) :: real)"
      using power_int_add_1 [of "2::real" "1 - ?L"] by simp
    ultimately show ?thesis
      unfolding b1 using x assms by simp
  next
    case ne: False
    have b1: "binade x = - ?L"
      using False ne by (simp add: binade_def Let_def)
    have p1: "(2::real) powi (- ?L) = 1 / 2 ^ nat ?L"
      using pow2_neg [of ?L] L by simp
    have p2: "(2::real) powi (- ?L + 1) = 1 / 2 ^ nat (?L - 1)"
      using pow2_neg [of "?L - 1"] L by (simp add: algebra_simps)
    from ne have "x \<noteq> 1 / 2 ^ nat (?L - 1)"
      by (auto simp: field_simps)
    with x_le have "x < 1 / 2 ^ nat (?L - 1)" by simp
    with x_gt show ?thesis
      unfolding b1 p1 p2 by simp
  qed
qed

lemma binade_less:
  assumes "0 < x" and "x < 2 powi E"
  shows "binade x < E"
proof (rule ccontr)
  assume "\<not> binade x < E"
  then have "(2::real) powi E \<le> 2 powi (binade x)"
    by (intro power_int_increasing) simp_all
  with binade_bounds [OF assms(1)] assms(2) show False by linarith
qed

lemma binade_ge:
  assumes "0 < x" and "2 powi E \<le> x"
  shows "E \<le> binade x"
proof (rule ccontr)
  assume "\<not> E \<le> binade x"
  then have "(2::real) powi (binade x + 1) \<le> 2 powi E"
    by (intro power_int_increasing) simp_all
  with binade_bounds [OF assms(1)] assms(2) show False by linarith
qed

lemma rne_bounds: "q - 1 / 2 \<le> of_int (round_half_even q) \<and> of_int (round_half_even q) \<le> q + 1 / 2"
  unfolding round_half_even_def Let_def by (auto; linarith)

lemma rne_ge_int: "of_int m \<le> q \<Longrightarrow> m \<le> round_half_even q"
proof -
  assume "of_int m \<le> q"
  then have "m \<le> \<lfloor>q\<rfloor>" by (simp add: le_floor_iff)
  moreover have "\<lfloor>q\<rfloor> \<le> round_half_even q"
    by (simp add: round_half_even_def Let_def)
  ultimately show ?thesis by simp
qed

lemma rne_le_int:
  assumes "q \<le> of_int m"
  shows "round_half_even q \<le> m"
proof (cases "q = of_int m")
  case True
  then show ?thesis by (simp add: round_half_even_def)
next
  case False
  with assms have "q < of_int m" by simp
  then have "\<lfloor>q\<rfloor> < m" by (simp add: floor_less_iff)
  moreover have "round_half_even q \<le> \<lfloor>q\<rfloor> + 1"
    by (simp add: round_half_even_def Let_def)
  ultimately show ?thesis by simp
qed

lemma ulp_pos: "0 < ulp x"
  by (simp add: ulp_def)

lemma round_nearest_pos: "0 < x \<Longrightarrow> round_nearest x = ulp x * of_int (round_half_even (x / ulp x))"
  by (simp add: round_nearest_def)

lemma round_nearest_minus: "round_nearest (- x) = - round_nearest x"
  by (simp add: round_nearest_def ulp_def)

lemma round_nearest_nonneg: "0 \<le> x \<Longrightarrow> 0 \<le> round_nearest x"
proof (cases "x = 0")
  case True
  then show ?thesis by (simp add: round_nearest_def)
next
  case False
  assume "0 \<le> x"
  with False have x: "0 < x" by simp
  then have "0 \<le> x / ulp x" using ulp_pos [of x] by simp
  then have "0 \<le> round_half_even (x / ulp x)"
    using rne_ge_int [of 0 "x / ulp x"] by simp
  then show ?thesis
    using ulp_pos [of x] x by (simp add: round_nearest_pos)
qed

lemma round_nearest_upper:
  assumes "0 < x"
  shows "round_nearest x \<le> x + ulp x / 2"
proof -
  have "of_int (round_half_even (x / ulp x)) \<le> x / ulp x + 1 / 2"
    using rne_bounds by blast
  then have "ulp x * of_int (round_half_even (x / ulp x)) \<le> ulp x * (x / ulp x + 1 / 2)"
    using ulp_pos [of x] by (intro mult_left_mono) simp_all
  also have "\<dots> = x + ulp x / 2"
    using ulp_pos [of x] by (simp add: field_simps)
  finally show ?thesis
    using assms by (simp add: round_nearest_pos)
qed


lemma ulp_grid:
  assumes "0 < x" and "x < 2 ^ 53"
  shows "\<exists>k::nat. ulp x * 2 ^ k = 1"
proof -
  have "binade x < 53"
    using binade_less [OF assms(1), of 53] assms(2) by simp
  then have e: "0 \<le> 52 - max (binade x) (- 1022)" by simp
  have "ulp x = 2 powi (- (52 - max (binade x) (- 1022)))"
    using assms(1) by (simp add: ulp_def)
  also have "\<dots> = 1 / 2 ^ nat (52 - max (binade x) (- 1022))"
    using e by (rule pow2_neg)
  finally have "ulp x * 2 ^ nat (52 - max (binade x) (- 1022)) = 1"
    by simp
  then show ?thesis ..
qed

lemma round_nearest_ge_int:
  assumes "0 < x" and "x < 2 ^ 53" and "of_int m \<le> x"
  shows "of_int m \<le> round_nearest x"
proof -
  from ulp_grid [OF assms(1,2)] obtain k :: nat where k: "ulp x * 2 ^ k = 1" ..
  then have u: "ulp x = 1 / 2 ^ k" by (simp add: field_simps)
  have "of_int (m * 2 ^ k) \<le> x / ulp x"
    using assms(3) by (simp add: u mult_right_mono)
  then have "m * 2 ^ k \<le> round_half_even (x / ulp x)"
    by (rule rne_ge_int)
  then have "real_of_int (m * 2 ^ k) \<le> of_int (round_half_even (x / ulp x))"
    by (simp only: of_int_le_iff)
  then have "ulp x * real_of_int (m * 2 ^ k) \<le> ulp x * of_int (round_half_even (x / ulp x))"
    using ulp_pos [of x] by (intro mult_left_mono) simp_all
  moreover have "ulp x * real_of_int (m * 2 ^ k) = of_int m"
    by (simp add: u)
  ultimately show ?thesis
    by (simp only: round_nearest_pos [OF assms(1)])
qed

lemma round_nearest_le_int:
  assumes "0 < x" and "x < 2 ^ 53" and "x \<le> of_int m"
  shows "round_nearest x \<le> of_int m"
proof -
  from ulp_grid [OF assms(1,2)] obtain k :: nat where k: "ulp x * 2 ^ k = 1" ..
  then have u: "ulp x = 1 / 2 ^ k" by (simp add: field_simps)
  have "x / ulp x \<le> of_int (m * 2 ^ k)"
    using assms(3) by (simp add: u mult_right_mono)
  then have "round_half_even (x / ulp x) \<le> m * 2 ^ k"
    by (rule rne_le_int)
  then have "real_of_int (round_half_even (x / ulp x)) \<le> of_int (m * 2 ^ k)"
    by (simp only: of_int_le_iff)
  then have "ulp x * of_int (round_half_even (x / ulp x)) \<le> ulp x * real_of_int (m * 2 ^ k)"
    using ulp_pos [of x] by (intro mult_left_mono) simp_all
  moreover have "ulp x * real_of_int (m * 2 ^ k) = of_int m"
    by (simp add: u)
  ultimately show ?thesis
    by (simp only: round_nearest_pos [OF assms(1)])
qed

lemma round_nearest_two_53: "round_nearest (2 ^ 53) = 2 ^ 53"
  by code_simp

lemma round_nearest_int_pos:
  assumes "0 \<le> z" and "z \<le> 2 ^ 53"
  shows "round_nearest (of_int z) = of_int z"
proof -
  consider "z = 0" | "z = 2 ^ 53" | "0 < z" "z < 2 ^ 53"
    using assms by linarith
  then show ?thesis
  proof cases
    case 1
    then show ?thesis by (simp add: round_nearest_def)
  next
    case 2
    then show ?thesis using round_nearest_two_53 by simp
  next
    case 3
    then have x: "0 < real_of_int z" "real_of_int z < 2 ^ 53"
      by (simp, metis of_int_less_iff of_int_numeral of_int_power)
    from round_nearest_ge_int [OF x, of z] round_nearest_le_int [OF x, of z]
    show ?thesis by simp
  qed
qed

lemma round_nearest_int:
  assumes "\<bar>z\<bar> \<le> 2 ^ 53"
  shows "round_nearest (of_int z) = of_int z"
proof (cases "0 \<le> z")
  case True
  with assms show ?thesis by (intro round_nearest_int_pos) simp_all
next
  case False
  with assms have "round_nearest (of_int (- z)) = of_int (- z)"
    by (intro round_nearest_int_pos) simp_all
  then show ?thesis
    using round_nearest_minus [of "of_int z"] by simp
qed

lemma to_number_int:
  assumes "\<bar>z\<bar> \<le> 2 ^ 53"
  shows "to_number (of_int z) = Finite (of_int z)"
proof -
  have "\<bar>real_of_int z\<bar> \<le> 2 ^ 53"
    using assms by (metis of_int_abs of_int_le_iff of_int_numeral of_int_power)
  moreover have "(2::real) ^ 53 < 2 ^ 1024" by simp
  ultimately have "\<not> 2 ^ 1024 \<le> \<bar>real_of_int z\<bar>" by linarith
  then show ?thesis
    by (simp add: to_number_def round_nearest_int [OF assms])
qed

lemma representable_below_one:
  assumes "representable r" and "0 \<le> r" and "r < 1"
  shows "r \<le> 1 - 1 / 2 ^ 53"
proof (rule ccontr)
  assume "\<not> r \<le> 1 - 1 / 2 ^ 53"
  then have big: "1 - 1 / 2 ^ 53 < r" by simp
  then have pos: "0 < r" by (simp add: field_simps; linarith)
  from assms(1) have rn: "round_nearest r = r"
    by (auto simp: representable_def to_number_def Let_def split: if_splits)
  have "(2::real) powi (- 1) \<le> r"
    using big by (simp add: power_int_minus_divide)
  then have "- 1 \<le> binade r" by (rule binade_ge [OF pos])
  moreover have "binade r < 0"
    using binade_less [OF pos, of 0] assms(3) by simp
  ultimately have b: "binade r = - 1" by simp
  have u: "ulp r = 1 / 2 ^ 53"
    using pos b pow2_neg [of 53] by (simp add: ulp_def)
  from rn pos have "r = (1 / 2 ^ 53) * of_int (round_half_even (r / ulp r))"
    by (simp add: round_nearest_pos u)
  then have eq: "r * 2 ^ 53 = of_int (round_half_even (r / ulp r))"
    by (simp add: field_simps)
  from big have "2 ^ 53 - 1 < r * 2 ^ 53"
    by (simp add: field_simps)
  moreover from assms(3) have "r * 2 ^ 53 < 2 ^ 53" by simp
  ultimately have "real_of_int (2 ^ 53 - 1) < of_int (round_half_even (r / ulp r))"
    and "of_int (round_half_even (r / ulp r)) < real_of_int (2 ^ 53)"
    unfolding eq by simp_all
  then have "2 ^ 53 - 1 < round_half_even (r / ulp r)" and "round_half_even (r / ulp r) < 2 ^ 53"
    by (simp_all only: of_int_less_iff)
  then show False by linarith
qed

lemma round_nearest_relative:
  assumes "0 < x"
  shows "round_nearest x \<le> x * (1 + 1 / 2 ^ 53) \<or> (x < 1 / 2 \<and> round_nearest x < 1)"
proof (cases "- 1022 \<le> binade x")
  case True
  then have "ulp x = 2 powi (binade x + (- 52))"
    using assms by (simp add: ulp_def max_def)
  also have "\<dots> = 2 powi (binade x) * 2 powi (- 52)"
    by (rule power_int_add) simp
  also have "\<dots> \<le> x * 2 powi (- 52)"
    using binade_bounds [OF assms] by (intro mult_right_mono) simp_all
  also have "\<dots> = x / 2 ^ 52"
    using pow2_neg [of 52] by simp
  finally have "ulp x / 2 \<le> x / 2 ^ 53" by simp
  with round_nearest_upper [OF assms] have "round_nearest x \<le> x + x / 2 ^ 53" by linarith
  then show ?thesis by (simp add: algebra_simps)
next
  case False
  then have u: "ulp x = 2 powi (- 1074)"
    using assms by (simp add: ulp_def max_def)
  have "(2::real) powi (- 1074) \<le> 2 powi (- 1)"
    by (intro power_int_increasing) simp_all
  then have u2: "ulp x \<le> 1 / 2"
    unfolding u by (simp add: power_int_minus_divide)
  from False have "binade x + 1 \<le> - 1" by simp
  then have "(2::real) powi (binade x + 1) \<le> 2 powi (- 1)"
    by (intro power_int_increasing) simp_all
  with binade_bounds [OF assms] have x: "x < 1 / 2"
    by (simp add: power_int_minus_divide)
  from round_nearest_upper [OF assms] u2 x have "round_nearest x < 1" by linarith
  with x show ?thesis by simp
qed

lemma product_below:
  assumes "representable r" and "0 \<le> r" and "r < 1" and "1 \<le> n"
  shows "0 \<le> round_nearest (r * n) \<and> round_nearest (r * n) < n"
proof (cases "r = 0")
  case True
  with assms(4) show ?thesis by (simp add: round_nearest_def)
next
  case False
  with assms have x: "0 < r * n" by simp
  have r: "r \<le> 1 - 1 / 2 ^ 53"
    using assms(1-3) by (rule representable_below_one)
  have "r * n * (1 + 1 / 2 ^ 53) \<le> (1 - 1 / 2 ^ 53) * n * (1 + 1 / 2 ^ 53)"
    using r assms(4) by (intro mult_right_mono) simp_all
  also have "\<dots> = n * (1 - 1 / 2 ^ 106)"
    by (simp add: algebra_simps)
  also have "\<dots> < n"
    using assms(4) by (simp add: algebra_simps)
  finally have "r * n * (1 + 1 / 2 ^ 53) < n" .
  with round_nearest_relative [OF x] assms(4) have "round_nearest (r * n) < n"
    by linarith
  with round_nearest_nonneg [of "r * n"] x show ?thesis by simp
qed


lemma to_number_small:
  assumes "\<bar>round_nearest x\<bar> \<le> 2 ^ 53"
  shows "to_number x = Finite (round_nearest x)"
proof -
  have "(2::real) ^ 53 < 2 ^ 1024" by simp
  with assms have "\<not> 2 ^ 1024 \<le> \<bar>round_nearest x\<bar>" by linarith
  then show ?thesis by (simp add: to_number_def)
qed

lemma getRandom_closed:
  assumes a: "- (2 ^ 53) \<le> a" and ab: "a < b" and b: "b \<le> 2 ^ 53" and n: "b - a \<le> 2 ^ 53"
    and r: "representable r" "0 \<le> r" "r < 1"
  shows "getRandom (Finite r) (Finite (of_int a)) (Finite (of_int b)) =
           Finite (of_int (\<lfloor>round_nearest (r * of_int (b - a))\<rfloor> + a))"
    and "0 \<le> \<lfloor>round_nearest (r * of_int (b - a))\<rfloor>"
    and "\<lfloor>round_nearest (r * of_int (b - a))\<rfloor> < b - a"
proof -
  let ?n = "b - a"
  let ?p = "round_nearest (r * of_int ?n)"
  have n1: "1 \<le> real_of_int ?n" using ab by simp
  have nb: "real_of_int ?n \<le> 2 ^ 53"
    using n by (metis of_int_le_iff of_int_numeral of_int_power)
  from product_below [OF r n1] have p: "0 \<le> ?p" "?p < of_int ?n" by simp_all
  from p show f0: "0 \<le> \<lfloor>?p\<rfloor>" by simp
  from p show f1: "\<lfloor>?p\<rfloor> < ?n" by (simp add: floor_less_iff)
  have "\<bar>?n\<bar> \<le> 2 ^ 53" using ab n by simp
  then have "to_number (real_of_int ?n) = Finite (real_of_int ?n)"
    by (rule to_number_int)
  moreover have "real_of_int b + - real_of_int a = real_of_int ?n" by simp
  ultimately have sub: "number_sub (Finite (of_int b)) (Finite (of_int a)) = Finite (of_int ?n)"
    by (simp only: number_sub_def number_neg.simps number_add.simps)
  have "\<bar>?p\<bar> \<le> 2 ^ 53" using p nb by linarith
  then have "to_number (r * real_of_int ?n) = Finite ?p"
    by (rule to_number_small)
  then have mul: "number_mul (Finite r) (Finite (of_int ?n)) = Finite ?p"
    by (simp only: number_mul.simps)
  have "\<bar>\<lfloor>?p\<rfloor> + a\<bar> \<le> 2 ^ 53"
    using f0 f1 a b by linarith
  then have "to_number (real_of_int (\<lfloor>?p\<rfloor> + a)) = Finite (real_of_int (\<lfloor>?p\<rfloor> + a))"
    by (rule to_number_int)
  moreover have "real_of_int \<lfloor>?p\<rfloor> + real_of_int a = real_of_int (\<lfloor>?p\<rfloor> + a)" by simp
  ultimately have add: "number_add (Finite (of_int \<lfloor>?p\<rfloor>)) (Finite (of_int a)) =
      Finite (of_int (\<lfloor>?p\<rfloor> + a))"
    by (simp only: number_add.simps)
  have fl: "Math_floor (Finite (real_of_int b)) = Finite (real_of_int b)"
    "Math_ceil (Finite (real_of_int a)) = Finite (real_of_int a)"
    by simp_all
  have "getRandom (Finite r) (Finite (of_int a)) (Finite (of_int b)) =
      number_add (Math_floor (number_mul (Finite r)
        (number_sub (Finite (of_int b)) (Finite (of_int a))))) (Finite (of_int a))"
    by (simp only: getRandom_def fl)
  also have "\<dots> = number_add (Math_floor (Finite ?p)) (Finite (of_int a))"
    by (simp only: sub mul)
  also have "\<dots> = Finite (of_int (\<lfloor>?p\<rfloor> + a))"
    by (simp only: Math_floor.simps add)
  finally show "getRandom (Finite r) (Finite (of_int a)) (Finite (of_int b)) =
           Finite (of_int (\<lfloor>?p\<rfloor> + a))" .
qed

lemma randomMonth_closed:
  assumes "1 \<le> monthCount year month" and "monthCount year month < 2 ^ 53"
    and r: "representable r" "0 \<le> r" "r < 1"
  shows "randomMonth (Finite r) year month =
           Finite (of_int (\<lfloor>round_nearest (r * of_int (monthCount year month))\<rfloor> + 1))"
    and "0 \<le> \<lfloor>round_nearest (r * of_int (monthCount year month))\<rfloor>"
    and "\<lfloor>round_nearest (r * of_int (monthCount year month))\<rfloor> < monthCount year month"
proof -
  let ?n = "monthCount year month"
  have "\<bar>?n + 1\<bar> \<le> 2 ^ 53" using assms(1,2) by simp
  then have "to_number (real_of_int (?n + 1)) = Finite (real_of_int (?n + 1))"
    by (rule to_number_int)
  moreover have "real_of_int ?n + 1 = real_of_int (?n + 1)" by simp
  ultimately have mx: "number_add (Finite (of_int ?n)) (Finite 1) = Finite (of_int (?n + 1))"
    by (simp only: number_add.simps)
  have c: "- (2 ^ 53) \<le> (1::int)" "1 < ?n + 1" "?n + 1 \<le> 2 ^ 53" "?n + 1 - 1 \<le> 2 ^ 53"
    using assms(1,2) by simp_all
  have one: "Finite 1 = Finite (real_of_int 1)" by simp
  have d: "?n + 1 - 1 = ?n" by simp
  note g = getRandom_closed [OF c r, unfolded d]
  show "randomMonth (Finite r) year month = Finite (of_int (\<lfloor>round_nearest (r * of_int ?n)\<rfloor> + 1))"
    unfolding randomMonth_def mx by (subst one) (rule g(1))
  show "0 \<le> \<lfloor>round_nearest (r * of_int ?n)\<rfloor>"
    by (rule g(2))
  show "\<lfloor>round_nearest (r * of_int ?n)\<rfloor> < ?n"
    by (rule g(3))
qed

lemma eps_product: "(1 - 1 / 2 ^ 53) * (1 + 1 / 2 ^ 53) = (1 - 1 / 2 ^ 106 :: real)"
  by (simp add: algebra_simps)

lemma bin_necessary:
  assumes "0 \<le> x" and "x < 2 ^ 53"
  shows "of_int \<lfloor>round_nearest x\<rfloor> * (1 - 1 / 2 ^ 53) \<le> x \<and> x < of_int \<lfloor>round_nearest x\<rfloor> + 1"
proof (cases "x = 0")
  case True
  then show ?thesis by (simp add: round_nearest_def)
next
  case False
  with assms have x: "0 < x" by simp
  let ?p = "round_nearest x" and ?j = "\<lfloor>round_nearest x\<rfloor>"
  have up: "x < of_int ?j + 1"
  proof (rule ccontr)
    assume "\<not> x < of_int ?j + 1"
    then have "of_int (?j + 1) \<le> x" by simp
    from round_nearest_ge_int [OF x assms(2) this] have "?j + 1 \<le> ?j"
      by (simp add: le_floor_iff)
    then show False by simp
  qed
  have lo: "of_int ?j * (1 - 1 / 2 ^ 53) \<le> x"
  proof (cases "1 \<le> ?j")
    case True
    then have "1 \<le> ?p" by (simp add: le_floor_iff)
    with round_nearest_relative [OF x] have "?p \<le> x * (1 + 1 / 2 ^ 53)" by linarith
    moreover have "of_int ?j \<le> ?p" by simp
    ultimately have "of_int ?j \<le> x * (1 + 1 / 2 ^ 53)" by linarith
    then have "of_int ?j * (1 - 1 / 2 ^ 53) \<le> x * (1 + 1 / 2 ^ 53) * (1 - 1 / 2 ^ 53)"
      by (intro mult_right_mono) simp_all
    also have "\<dots> = x * (1 - 1 / 2 ^ 106)"
      using eps_product by (simp add: mult.assoc mult.commute)
    also have "\<dots> \<le> x"
      using x by (simp add: algebra_simps)
    finally show ?thesis .
  next
    case False
    have "0 \<le> ?p" using round_nearest_nonneg [of x] x by simp
    then have "0 \<le> ?j" by simp
    with False have "?j = 0" by linarith
    then show ?thesis using x by simp
  qed
  from lo up show ?thesis ..
qed

lemma bin_sufficient:
  assumes "0 \<le> x" and "x < 2 ^ 53" and "of_int i \<le> x" and "x < of_int (i + 1) * (1 - 1 / 2 ^ 53)"
  shows "\<lfloor>round_nearest x\<rfloor> = i"
proof (cases "x = 0")
  case True
  with assms(3,4) have "i \<le> 0" "0 < real_of_int (i + 1)"
    by (simp_all add: zero_less_mult_iff)
  then have "i = 0" by simp
  with True show ?thesis by (simp add: round_nearest_def)
next
  case False
  with assms have x: "0 < x" by simp
  let ?p = "round_nearest x"
  have i1: "0 < real_of_int (i + 1)"
    using assms(4) x by (simp add: zero_less_mult_iff; linarith)
  then have "0 < i + 1" by (simp only: of_int_0_less_iff)
  then have "1 \<le> i + 1" by simp
  then have "real_of_int 1 \<le> real_of_int (i + 1)" by (simp only: of_int_le_iff)
  then have i1': "1 \<le> real_of_int (i + 1)" by simp
  have lo: "of_int i \<le> ?p"
    using x assms(2,3) by (rule round_nearest_ge_int)
  have "x * (1 + 1 / 2 ^ 53) < of_int (i + 1) * (1 - 1 / 2 ^ 53) * (1 + 1 / 2 ^ 53)"
    using assms(4) by (intro mult_strict_right_mono) simp_all
  also have "\<dots> = of_int (i + 1) * (1 - 1 / 2 ^ 106)"
    using eps_product by (simp add: mult.assoc)
  also have "\<dots> \<le> of_int (i + 1)"
    using i1 by (simp add: algebra_simps)
  finally have "x * (1 + 1 / 2 ^ 53) < of_int (i + 1)" .
  with round_nearest_relative [OF x] i1' have "?p < of_int (i + 1)" by linarith
  with lo show ?thesis by (simp add: floor_eq_iff)
qed


lemma round_nearest_at:
  assumes "0 < x" and "2 powi e \<le> x" and "x < 2 powi (e + 1)" and "- 1022 \<le> e"
  shows "round_nearest x = 2 powi (e - 52) * of_int (round_half_even (x / 2 powi (e - 52)))"
proof -
  have "binade x = e"
    using binade_ge [OF assms(1,2)] binade_less [OF assms(1,3)] by simp
  then have "ulp x = 2 powi (e - 52)"
    using assms(1,4) by (simp add: ulp_def max_def)
  then show ?thesis
    using assms(1) by (simp add: round_nearest_pos)
qed

lemma rne_of_int: "round_half_even (of_int k) = k"
  by (simp add: round_half_even_def)

lemma representable_at:
  assumes "0 < x" and "2 powi e \<le> x" and "x < 2 powi (e + 1)" and "- 1022 \<le> e"
    and "x \<le> 2 ^ 53" and "x / 2 powi (e - 52) = of_int k"
  shows "representable x"
proof -
  have "round_nearest x = 2 powi (e - 52) * (x / 2 powi (e - 52))"
    unfolding round_nearest_at [OF assms(1-4)] assms(6) by (simp add: rne_of_int)
  then have rn: "round_nearest x = x" by simp
  with assms(1,5) have "\<bar>round_nearest x\<bar> \<le> 2 ^ 53" by simp
  from to_number_small [OF this] rn show ?thesis
    by (simp add: representable_def)
qed

lemma to_number_at: "round_nearest x = y \<Longrightarrow> \<bar>y\<bar> < 2 ^ 1024 \<Longrightarrow> to_number x = Finite y"
  by (simp add: to_number_def)

lemma rne_below_half:
  assumes "q < of_int m + 1 / 2"
  shows "round_half_even q \<le> m"
proof -
  from assms have "q < of_int (m + 1)" by simp
  then have "\<lfloor>q\<rfloor> < m + 1" by (simp only: floor_less_iff)
  then have f: "\<lfloor>q\<rfloor> \<le> m" by simp
  show ?thesis
  proof (cases "\<lfloor>q\<rfloor> = m")
    case True
    with assms have "q - of_int \<lfloor>q\<rfloor> < 1 / 2" by simp
    then show ?thesis by (simp add: round_half_even_def Let_def True)
  next
    case False
    with f have "\<lfloor>q\<rfloor> + 1 \<le> m" by simp
    moreover have "round_half_even q \<le> \<lfloor>q\<rfloor> + 1"
      by (simp add: round_half_even_def Let_def)
    ultimately show ?thesis by simp
  qed
qed

lemma round_nearest_wide:
  assumes "2 ^ 53 \<le> x" and "x < 2 ^ 54"
  shows "round_nearest x = 2 * of_int (round_half_even (x / 2))"
proof -
  have "0 < x" using assms(1) by (rule less_le_trans [rotated]) simp
  moreover have "(2::real) powi 53 \<le> x" using assms(1) by simp
  moreover have "x < 2 powi (53 + 1)" using assms(2) by simp
  ultimately have "round_nearest x =
      2 powi (53 - 52) * of_int (round_half_even (x / 2 powi (53 - 52)))"
    by (rule round_nearest_at) simp
  then show ?thesis by simp
qed

lemma below_midpoint:
  assumes "0 \<le> x" and "x < of_int e - 1" and "even e" and "2 ^ 53 < e" and "e \<le> 2 ^ 54"
  shows "round_nearest x \<le> of_int e - 2"
proof -
  from assms(3) obtain m where m: "e = 2 * m" by (elim evenE)
  from assms(4) m have "2 ^ 52 < m" by simp
  then have "2 ^ 52 + 1 \<le> m" by simp
  with m have "2 ^ 53 + 2 \<le> e" by simp
  then have "real_of_int (2 ^ 53 + 2) \<le> of_int e" by (simp only: of_int_le_iff)
  then have lo: "(2::real) ^ 53 \<le> of_int e - 2" by simp
  from assms(5) have "real_of_int e \<le> of_int (2 ^ 54)" by (simp only: of_int_le_iff)
  then have hi: "real_of_int e \<le> 2 ^ 54" by simp
  consider (zero) "x = 0" | (small) "0 < x" "x < 2 ^ 53" | (wide) "2 ^ 53 \<le> x"
    using assms(1) by linarith
  then show ?thesis
  proof cases
    case zero
    with lo show ?thesis by (simp add: round_nearest_def)
  next
    case small
    have "x \<le> real_of_int (2 ^ 53)" using small(2) by simp
    from round_nearest_le_int [OF small this] lo show ?thesis by simp
  next
    case wide
    from assms(2) hi have "x < 2 ^ 54" by linarith
    from round_nearest_wide [OF wide this]
    have rn: "round_nearest x = 2 * of_int (round_half_even (x / 2))" .
    from assms(2) m have "x / 2 < of_int (m - 1) + 1 / 2" by simp
    then have "round_half_even (x / 2) \<le> m - 1" by (rule rne_below_half)
    then have "real_of_int (round_half_even (x / 2)) \<le> of_int (m - 1)"
      by (simp only: of_int_le_iff)
    with rn m show ?thesis by simp
  qed
qed

lemma round_nearest_wide_int:
  assumes "2 ^ 53 < d" and "d \<le> 2 ^ 54"
  shows "\<exists>e. round_nearest (of_int d) = of_int e \<and> even e \<and> d - 1 \<le> e \<and> e \<le> d + 1 \<and>
           e \<le> 2 ^ 54"
proof (cases "d = 2 ^ 54")
  case True
  have "round_nearest (2 ^ 54) =
      2 powi (54 - 52) * of_int (round_half_even (2 ^ 54 / 2 powi (54 - 52)))"
    by (rule round_nearest_at) simp_all
  also have "\<dots> = 2 ^ 54"
    by (simp add: round_half_even_def Let_def)
  finally have "round_nearest (of_int d) = of_int (2 ^ 54)"
    by (simp add: True)
  then show ?thesis
    using True by (intro exI [of _ "2 ^ 54"]) simp
next
  case False
  with assms have "d + 1 \<le> 2 ^ 54" by simp
  let ?k = "round_half_even (of_int d / 2)"
  from assms(1) have "real_of_int (2 ^ 53) \<le> of_int d" by (simp only: of_int_le_iff)
  then have lo: "2 ^ 53 \<le> real_of_int d" by simp
  from False assms(2) have "d < 2 ^ 54" by simp
  then have "real_of_int d < of_int (2 ^ 54)" by (simp only: of_int_less_iff)
  then have hi: "real_of_int d < 2 ^ 54" by simp
  from round_nearest_wide [OF lo hi]
  have "round_nearest (of_int d) = of_int (2 * ?k)" by simp
  moreover have "even (2 * ?k)" by simp
  moreover from rne_bounds [of "of_int d / 2"]
  have "real_of_int (d - 1) \<le> of_int (2 * ?k)" "real_of_int (2 * ?k) \<le> of_int (d + 1)"
    by simp_all
  then have "d - 1 \<le> 2 * ?k" "2 * ?k \<le> d + 1"
    by (simp_all only: of_int_le_iff)
  moreover from this(2) \<open>d + 1 \<le> 2 ^ 54\<close> have "2 * ?k \<le> 2 ^ 54" by linarith
  ultimately show ?thesis by blast
qed

lemma getRandom_range:
  assumes a: "- (2 ^ 53) \<le> a" and ab: "a < b" and b: "b \<le> 2 ^ 53"
    and r: "representable r" "0 \<le> r" "r < 1"
  shows "\<exists>k. getRandom (Finite r) (Finite (of_int a)) (Finite (of_int b)) = Finite (of_int k) \<and>
           a \<le> k \<and> k < b"
proof (cases "b - a \<le> 2 ^ 53")
  case True
  note c = getRandom_closed [OF a ab b True r]
  have "a \<le> \<lfloor>round_nearest (r * of_int (b - a))\<rfloor> + a"
    "\<lfloor>round_nearest (r * of_int (b - a))\<rfloor> + a < b"
    using c(2,3) by simp_all
  with c(1) show ?thesis by blast
next
  case False
  let ?d = "b - a"
  from False have d1: "2 ^ 53 < ?d" by simp
  from a b have d2: "?d \<le> 2 ^ 54" by simp
  from round_nearest_wide_int [OF d1 d2] obtain e where
    e: "round_nearest (of_int ?d) = of_int e" "even e" "?d - 1 \<le> e" "e \<le> ?d + 1" "e \<le> 2 ^ 54"
    by blast
  from e(5) have "real_of_int e \<le> of_int (2 ^ 54)" by (simp only: of_int_le_iff)
  then have e54: "real_of_int e \<le> 2 ^ 54" by simp
  from d1 e(3) have e53: "2 ^ 53 \<le> e" by simp
  then have "real_of_int (2 ^ 53) \<le> of_int e" by (simp only: of_int_le_iff)
  then have e53': "2 ^ 53 \<le> real_of_int e" by simp
  have "(2::real) ^ 54 < 2 ^ 1024" by simp
  with e54 e53' have "\<bar>real_of_int e\<bar> < 2 ^ 1024" by simp
  with e(1) have "to_number (real_of_int ?d) = Finite (of_int e)"
    by (rule to_number_at)
  moreover have "real_of_int b + - real_of_int a = real_of_int ?d" by simp
  ultimately have sub: "number_sub (Finite (of_int b)) (Finite (of_int a)) = Finite (of_int e)"
    by (simp only: number_sub_def number_neg.simps number_add.simps)
  let ?p = "round_nearest (r * of_int e)"
  have e1: "1 \<le> real_of_int e" using e53' by (rule order_trans [rotated]) simp
  from product_below [OF r e1] have p0: "0 \<le> ?p" and pe: "?p < of_int e" by simp_all
  have pd: "?p < of_int ?d"
  proof (cases "e \<le> ?d")
    case True
    then have "real_of_int e \<le> of_int ?d" by (simp only: of_int_le_iff)
    with pe show ?thesis by linarith
  next
    case False
    with e(4) have ed: "e = ?d + 1" by simp
    with d1 have "2 ^ 53 < e" by simp
    then have "real_of_int (2 ^ 53) < of_int e" by (simp only: of_int_less_iff)
    then have big: "2 ^ 53 < real_of_int e" by simp
    have "r \<le> 1 - 1 / 2 ^ 53" using r by (rule representable_below_one)
    then have "r * of_int e \<le> (1 - 1 / 2 ^ 53) * of_int e"
      using e1 by (intro mult_right_mono) simp_all
    also have "\<dots> = of_int e - of_int e / 2 ^ 53"
      by (simp add: algebra_simps)
    also have "\<dots> < of_int e - 1"
      using big by (simp add: field_simps)
    finally have "r * of_int e < of_int e - 1" .
    moreover have "0 \<le> r * of_int e" using r(2) e1 by simp
    ultimately have "?p \<le> of_int e - 2"
      using e(2) \<open>2 ^ 53 < e\<close> e(5) by (intro below_midpoint)
    with ed show ?thesis by simp
  qed
  from p0 have f0: "0 \<le> \<lfloor>?p\<rfloor>" by simp
  from pd have f1: "\<lfloor>?p\<rfloor> < ?d" by (simp add: floor_less_iff)
  from p0 pe e54 have "\<bar>?p\<bar> < 2 ^ 54" by linarith
  then have "\<bar>?p\<bar> < 2 ^ 1024"
    using \<open>(2::real) ^ 54 < 2 ^ 1024\<close> by linarith
  with refl have "to_number (r * real_of_int e) = Finite ?p"
    by (rule to_number_at)
  then have mul: "number_mul (Finite r) (Finite (of_int e)) = Finite ?p"
    by (simp only: number_mul.simps)
  have "\<bar>\<lfloor>?p\<rfloor> + a\<bar> \<le> 2 ^ 53"
    using f0 f1 a b by linarith
  then have "to_number (real_of_int (\<lfloor>?p\<rfloor> + a)) = Finite (real_of_int (\<lfloor>?p\<rfloor> + a))"
    by (rule to_number_int)
  moreover have "real_of_int \<lfloor>?p\<rfloor> + real_of_int a = real_of_int (\<lfloor>?p\<rfloor> + a)" by simp
  ultimately have add: "number_add (Finite (of_int \<lfloor>?p\<rfloor>)) (Finite (of_int a)) =
      Finite (of_int (\<lfloor>?p\<rfloor> + a))"
    by (simp only: number_add.simps)
  have fl: "Math_floor (Finite (real_of_int b)) = Finite (real_of_int b)"
    "Math_ceil (Finite (real_of_int a)) = Finite (real_of_int a)"
    by simp_all
  have "getRandom (Finite r) (Finite (of_int a)) (Finite (of_int b)) =
      number_add (Math_floor (number_mul (Finite r)
        (number_sub (Finite (of_int b)) (Finite (of_int a))))) (Finite (of_int a))"
    by (simp only: getRandom_def fl)
  also have "\<dots> = number_add (Math_floor (Finite ?p)) (Finite (of_int a))"
    by (simp only: sub mul)
  also have "\<dots> = Finite (of_int (\<lfloor>?p\<rfloor> + a))"
    by (simp only: Math_floor.simps add)
  finally have "getRandom (Finite r) (Finite (of_int a)) (Finite (of_int b)) =
           Finite (of_int (\<lfloor>?p\<rfloor> + a))" .
  moreover have "a \<le> \<lfloor>?p\<rfloor> + a" "\<lfloor>?p\<rfloor> + a < b"
    using f0 f1 by simp_all
  ultimately show ?thesis by blast
qed

section \<open>Random numbers: range and distribution\<close>

text \<open>
  C2 as the spec computes it: in April 2019 (\<^verbatim>\<open>moment().month()\<close> is 3) the month count
  would be 74.  The code gives 86.  Nor are the values of \<^verbatim>\<open>Math.random()\<close> that give \<open>k\<close>
  exactly those of the interval from (k - 1) / 86 to k / 86: the double
  1675758000882045 / 2 ^ 52 lies below 32 / 86, its product with 86 is rounded to 32, and the
  month is 33.  And in February 2012 the month count is 0 and \<^verbatim>\<open>randomMonth\<close> is
  \<^verbatim>\<open>getRandom(1, 1)\<close>, which is 1: no integer of the empty range from 1 to 0.
\<close>

theorem monthCount_april_2019_not_74:
  "monthCount 2019 3 \<noteq> 74 \<and>
   representable (1675758000882045 / 2 ^ 52) \<and>
   (0::real) \<le> 1675758000882045 / 2 ^ 52 \<and> (1675758000882045 / 2 ^ 52 :: real) < 1 \<and>
   (1675758000882045 / 2 ^ 52 :: real) * 86 < 32 \<and>
   randomMonth (Finite (1675758000882045 / 2 ^ 52)) 2019 3 = Finite 33 \<and>
   monthCount 2012 1 = 0 \<and> representable (1 / 2) \<and>
   randomMonth (Finite (1 / 2)) 2012 1 = Finite 1"
proof -
  have n0: "monthCount 2012 1 = 0" by (simp add: monthCount_def)
  have one: "to_number 1 = Finite 1"
    using to_number_int [of 1] by simp
  have zero: "to_number 0 = Finite 0"
    using to_number_int [of 0] by simp
  have half: "representable (1 / 2)"
    by (rule representable_at [where e = "- 1" and k = 4503599627370496]) simp_all
  have m0: "randomMonth (Finite (1 / 2)) 2012 1 = Finite 1"
    by (simp add: randomMonth_def n0 getRandom_def number_sub_def one zero)
  have n: "monthCount 2019 3 = 86" by (simp add: monthCount_def)
  have r: "representable (1675758000882045 / 2 ^ 52)"
    by (rule representable_at [where e = "- 2" and k = 6703032003528180]) simp_all
  have "round_nearest (1675758000882045 / 2 ^ 52 * 86) =
      2 powi (4 - 52) * of_int (round_half_even (1675758000882045 / 2 ^ 52 * 86 / 2 powi (4 - 52)))"
    by (rule round_nearest_at) simp_all
  also have "\<dots> = 32"
    by (simp add: round_half_even_def Let_def)
  finally have p: "round_nearest (1675758000882045 / 2 ^ 52 * real_of_int 86) = 32" by simp
  have "randomMonth (Finite (1675758000882045 / 2 ^ 52)) 2019 3 =
      Finite (of_int (\<lfloor>round_nearest (1675758000882045 / 2 ^ 52 * of_int (monthCount 2019 3))\<rfloor> + 1))"
    by (rule randomMonth_closed(1) [OF _ _ r]) (simp_all add: n)
  then have m: "randomMonth (Finite (1675758000882045 / 2 ^ 52)) 2019 3 = Finite 33"
    unfolding n p by simp
  from n r m n0 half m0 show ?thesis by simp
qed

text \<open>
  C2, amended: in April 2019 \<open>monthCount\<close> is (2019 * 12 + 3) - (2012 * 12 + 1) = 86 and
  \<open>randomMonth\<close> is an integer of 1..86; in general \<open>monthCount\<close> is (year * 12 + month) -
  (2012 * 12 + 1) with the month counted from 0, and when it is at least 1 (and below 2 ^ 53)
  \<open>randomMonth\<close> is an integer \<open>k\<close> of 1..monthCount, as uniform as \<^verbatim>\<open>Math.random()\<close> and the
  rounding of the product allow: \<open>k\<close> is the month for the values \<open>r\<close> of \<^verbatim>\<open>Math.random()\<close>
  with \<open>k - 1 \<le> r * monthCount < k\<close>, except within the relative distance 2 ^ -53 of the
  ends of that interval, where the rounding of \<open>r * monthCount\<close> decides.
\<close>

theorem monthCount_randomMonth:
  "monthCount 2019 3 = (2019 * 12 + 3) - (2012 * 12 + 1) \<and> monthCount 2019 3 = 86 \<and>
   (representable random \<and> 0 \<le> random \<and> random < 1 \<longrightarrow>
      (\<exists>k. randomMonth (Finite random) 2019 3 = Finite (of_int k) \<and> 1 \<le> k \<and> k \<le> 86)) \<and>
   monthCount year month = (year * 12 + month) - (2012 * 12 + 1) \<and>
   (1 \<le> monthCount year month \<and> monthCount year month < 2 ^ 53 \<and>
    representable random \<and> 0 \<le> random \<and> random < 1 \<longrightarrow>
      (\<exists>k. randomMonth (Finite random) year month = Finite (of_int k) \<and>
           1 \<le> k \<and> k \<le> monthCount year month \<and>
           of_int (k - 1) * (1 - 1 / 2 ^ 53) \<le> random * of_int (monthCount year month) \<and>
           random * of_int (monthCount year month) < of_int k)) \<and>
   (1 \<le> monthCount year month \<and> monthCount year month < 2 ^ 53 \<and>
    representable random \<and> 0 \<le> random \<and> random < 1 \<and>
    of_int (k - 1) \<le> random * of_int (monthCount year month) \<and>
    random * of_int (monthCount year month) < of_int k * (1 - 1 / 2 ^ 53) \<longrightarrow>
      randomMonth (Finite random) year month = Finite (of_int k))"
proof -
  have general: "\<exists>k. randomMonth (Finite r) y m = Finite (of_int k) \<and>
           1 \<le> k \<and> k \<le> monthCount y m \<and>
           of_int (k - 1) * (1 - 1 / 2 ^ 53) \<le> r * of_int (monthCount y m) \<and>
           r * of_int (monthCount y m) < of_int k"
    if n: "1 \<le> monthCount y m" "monthCount y m < 2 ^ 53"
      and r: "representable r" "0 \<le> r" "r < 1" for r y m
  proof -
    let ?x = "r * of_int (monthCount y m)"
    let ?j = "\<lfloor>round_nearest ?x\<rfloor>"
    note c = randomMonth_closed [OF n r]
    have n': "real_of_int (monthCount y m) < 2 ^ 53"
      using n(2) by (metis of_int_less_iff of_int_numeral of_int_power)
    have x0: "0 \<le> ?x" using r(2) n(1) by simp
    have "?x \<le> 1 * of_int (monthCount y m)"
      using r(3) n(1) by (intro mult_right_mono) simp_all
    with n' have x1: "?x < 2 ^ 53" by simp
    from bin_necessary [OF x0 x1]
    have "of_int (?j + 1 - 1) * (1 - 1 / 2 ^ 53) \<le> ?x" "?x < of_int (?j + 1)"
      by simp_all
    moreover have "1 \<le> ?j + 1" "?j + 1 \<le> monthCount y m"
      using c(2,3) by simp_all
    ultimately show ?thesis
      using c(1) by blast
  qed
  have a: "monthCount 2019 3 = 86" by (simp add: monthCount_def)
  have b: "representable random \<and> 0 \<le> random \<and> random < 1 \<longrightarrow>
      (\<exists>k. randomMonth (Finite random) 2019 3 = Finite (of_int k) \<and> 1 \<le> k \<and> k \<le> 86)"
    using general [of 2019 3 random] a by auto
  have c: "1 \<le> monthCount year month \<and> monthCount year month < 2 ^ 53 \<and>
    representable random \<and> 0 \<le> random \<and> random < 1 \<longrightarrow>
      (\<exists>k. randomMonth (Finite random) year month = Finite (of_int k) \<and>
           1 \<le> k \<and> k \<le> monthCount year month \<and>
           of_int (k - 1) * (1 - 1 / 2 ^ 53) \<le> random * of_int (monthCount year month) \<and>
           random * of_int (monthCount year month) < of_int k)"
    using general [of year month random] by blast
  have d: "1 \<le> monthCount year month \<and> monthCount year month < 2 ^ 53 \<and>
    representable random \<and> 0 \<le> random \<and> random < 1 \<and>
    of_int (k - 1) \<le> random * of_int (monthCount year month) \<and>
    random * of_int (monthCount year month) < of_int k * (1 - 1 / 2 ^ 53) \<longrightarrow>
      randomMonth (Finite random) year month = Finite (of_int k)"
  proof (intro impI, elim conjE)
    let ?x = "random * of_int (monthCount year month)"
    assume n: "1 \<le> monthCount year month" "monthCount year month < 2 ^ 53"
      and r: "representable random" "0 \<le> random" "random < 1"
      and k: "of_int (k - 1) \<le> ?x" "?x < of_int k * (1 - 1 / 2 ^ 53)"
    have n': "real_of_int (monthCount year month) < 2 ^ 53"
      using n(2) by (metis of_int_less_iff of_int_numeral of_int_power)
    have x0: "0 \<le> ?x" using r(2) n(1) by simp
    have "?x \<le> 1 * of_int (monthCount year month)"
      using r(3) n(1) by (intro mult_right_mono) simp_all
    with n' have x1: "?x < 2 ^ 53" by simp
    from k(2) have "?x < of_int (k - 1 + 1) * (1 - 1 / 2 ^ 53)" by simp
    from bin_sufficient [OF x0 x1 k(1) this] have "\<lfloor>round_nearest ?x\<rfloor> + 1 = k" by simp
    with randomMonth_closed(1) [OF n r]
    show "randomMonth (Finite random) year month = Finite (of_int k)" by simp
  qed
  have e: "monthCount year month = (year * 12 + month) - (2012 * 12 + 1)"
    by (simp add: monthCount_def)
  from a b c d e show ?thesis by (simp only: simp_thms) simp
qed

theorem monthCount_randomMonth_witness:
  "(1::int) \<le> monthCount 2019 3 \<and> monthCount 2019 3 < 2 ^ 53 \<and>
   representable (1 / 2) \<and> (0::real) \<le> 1 / 2 \<and> (1 / 2 :: real) < 1 \<and>
   real_of_int (44 - 1) \<le> 1 / 2 * of_int (monthCount 2019 3) \<and>
   1 / 2 * real_of_int (monthCount 2019 3) < of_int 44 * (1 - 1 / 2 ^ 53) \<and>
   randomMonth (Finite (1 / 2)) 2019 3 = Finite (of_int 44) \<and>
   (\<exists>k. randomMonth (Finite (1 / 2)) 2019 3 = Finite (of_int k) \<and> 1 \<le> k \<and> k \<le> 86)"
proof -
  note t = monthCount_randomMonth [of "1 / 2" 2019 3 44]
  have h: "(1::int) \<le> monthCount 2019 3" "monthCount 2019 3 < 2 ^ 53"
    "(0::real) \<le> 1 / 2" "(1 / 2 :: real) < 1"
    "real_of_int (44 - 1) \<le> 1 / 2 * of_int (monthCount 2019 3)"
    "1 / 2 * real_of_int (monthCount 2019 3) < of_int 44 * (1 - 1 / 2 ^ 53)"
    by (simp_all add: monthCount_def)
  have r: "representable (1 / 2)"
    by (rule representable_at [where e = "- 1" and k = 4503599627370496]) simp_all
  from t h r have c1: "randomMonth (Finite (1 / 2)) 2019 3 = Finite (of_int 44)"
    by blast
  from t h r have c2: "\<exists>k. randomMonth (Finite (1 / 2)) 2019 3 = Finite (of_int k) \<and> 1 \<le> k \<and> k \<le> 86"
    by blast
  from h r c1 c2 show ?thesis by blast
qed

text \<open>
  C10 as stated, for all integer arguments: with the minimum 2 ^ 53, the maximum 2 ^ 53 + 4
  and \<^verbatim>\<open>Math.random()\<close> = 0.75 the sum 3 + 2 ^ 53 is no double and is rounded to 2 ^ 53 + 4:
  \<open>getRandom\<close> returns its maximum.
\<close>

theorem getRandom_reaches_maximum:
  "(2 ^ 53 :: int) < 2 ^ 53 + 4 \<and>
   representable (of_int (2 ^ 53)) \<and> representable (of_int (2 ^ 53 + 4)) \<and>
   representable (3 / 4) \<and> (0::real) \<le> 3 / 4 \<and> (3 / 4 :: real) < 1 \<and>
   getRandom (Finite (3 / 4)) (Finite (of_int (2 ^ 53))) (Finite (of_int (2 ^ 53 + 4))) =
     Finite (of_int (2 ^ 53 + 4))"
proof -
  have r1: "representable (of_int (2 ^ 53))"
    using to_number_int [of "2 ^ 53"] by (simp add: representable_def)
  have "round_nearest 9007199254740996 =
      2 powi (53 - 52) * of_int (round_half_even (9007199254740996 / 2 powi (53 - 52)))"
    by (rule round_nearest_at) simp_all
  also have "\<dots> = 9007199254740996"
    by (simp add: round_half_even_def Let_def)
  finally have "to_number 9007199254740996 = Finite 9007199254740996"
    by (rule to_number_at) simp
  then have r2: "representable (of_int (2 ^ 53 + 4))"
    by (simp add: representable_def)
  have r3: "representable (3 / 4)"
    by (rule representable_at [where e = "- 1" and k = 6755399441055744]) simp_all
  have s: "to_number 4 = Finite 4"
    using to_number_int [of 4] by simp
  have m: "to_number 3 = Finite 3"
    using to_number_int [of 3] by simp
  have "round_nearest 9007199254740995 =
      2 powi (53 - 52) * of_int (round_half_even (9007199254740995 / 2 powi (53 - 52)))"
    by (rule round_nearest_at) simp_all
  also have "\<dots> = 9007199254740996"
    by (simp add: round_half_even_def Let_def)
  finally have a: "to_number 9007199254740995 = Finite 9007199254740996"
    by (rule to_number_at) simp
  have g: "getRandom (Finite (3 / 4)) (Finite (of_int (2 ^ 53))) (Finite (of_int (2 ^ 53 + 4))) =
     Finite (of_int (2 ^ 53 + 4))"
    by (simp add: getRandom_def number_sub_def s m a)
  from r1 r2 r3 g show ?thesis by simp
qed

text \<open>
  C10, amended: for integers \<open>minimum < maximum\<close> of magnitude at most 2 ^ 53 and a double
  \<open>random\<close> in \<open>[0, 1)\<close>, \<open>getRandom\<close> returns an integer \<open>k\<close> with
  \<open>minimum \<le> k < maximum\<close>; so the factor \<open>getRandom(0, 5)\<close> of the pause is one of 0, 1,
  2, 3, 4, and \<open>randomMonth = getRandom(1, monthCount + 1)\<close> lies between 1 and \<open>monthCount\<close>
  when that is at least 1 (and below 2 ^ 53).
\<close>

theorem getRandom_bounds:
  "(- (2 ^ 53) \<le> minimum \<and> minimum < maximum \<and> maximum \<le> 2 ^ 53 \<and>
    representable random \<and> 0 \<le> random \<and> random < 1 \<longrightarrow>
      (\<exists>k. getRandom (Finite random) (Finite (of_int minimum)) (Finite (of_int maximum)) =
             Finite (of_int k) \<and> minimum \<le> k \<and> k < maximum)) \<and>
   (representable random \<and> 0 \<le> random \<and> random < 1 \<longrightarrow>
      (\<exists>k. getRandom (Finite random) (Finite 0) (Finite 5) = Finite (of_int k) \<and>
           k \<in> {0, 1, 2, 3, 4})) \<and>
   (1 \<le> monthCount year month \<and> monthCount year month < 2 ^ 53 \<and>
    representable random \<and> 0 \<le> random \<and> random < 1 \<longrightarrow>
      randomMonth (Finite random) year month =
        getRandom (Finite random) (Finite 1) (Finite (of_int (monthCount year month + 1))) \<and>
      (\<exists>k. randomMonth (Finite random) year month = Finite (of_int k) \<and>
           1 \<le> k \<and> k \<le> monthCount year month))"
proof -
  have range: "\<exists>k. getRandom (Finite r) (Finite (of_int a)) (Finite (of_int b)) =
             Finite (of_int k) \<and> a \<le> k \<and> k < b"
    if "- (2 ^ 53) \<le> a" "a < b" "b \<le> 2 ^ 53"
      "representable r" "0 \<le> r" "r < 1" for a b r
    using that by (rule getRandom_range)
  have a: "- (2 ^ 53) \<le> minimum \<and> minimum < maximum \<and> maximum \<le> 2 ^ 53 \<and>
    representable random \<and> 0 \<le> random \<and> random < 1 \<longrightarrow>
      (\<exists>k. getRandom (Finite random) (Finite (of_int minimum)) (Finite (of_int maximum)) =
             Finite (of_int k) \<and> minimum \<le> k \<and> k < maximum)"
    using range [of minimum maximum random] by blast
  have b: "representable random \<and> 0 \<le> random \<and> random < 1 \<longrightarrow>
      (\<exists>k. getRandom (Finite random) (Finite 0) (Finite 5) = Finite (of_int k) \<and>
           k \<in> {0, 1, 2, 3, 4})"
  proof
    assume r: "representable random \<and> 0 \<le> random \<and> random < 1"
    with range [of 0 5 random] obtain k where
      k: "getRandom (Finite random) (Finite 0) (Finite 5) = Finite (of_int k)" "0 \<le> k" "k < 5"
      by auto
    from k(2,3) have "k \<in> {0, 1, 2, 3, 4}" by auto
    with k(1) show "\<exists>k. getRandom (Finite random) (Finite 0) (Finite 5) = Finite (of_int k) \<and>
           k \<in> {0, 1, 2, 3, 4}" by blast
  qed
  have c: "1 \<le> monthCount year month \<and> monthCount year month < 2 ^ 53 \<and>
    representable random \<and> 0 \<le> random \<and> random < 1 \<longrightarrow>
      randomMonth (Finite random) year month =
        getRandom (Finite random) (Finite 1) (Finite (of_int (monthCount year month + 1))) \<and>
      (\<exists>k. randomMonth (Finite random) year month = Finite (of_int k) \<and>
           1 \<le> k \<and> k \<le> monthCount year month)"
  proof (intro impI, elim conjE)
    let ?n = "monthCount year month"
    assume n: "1 \<le> ?n" "?n < 2 ^ 53" and r: "representable random" "0 \<le> random" "random < 1"
    have "\<bar>?n + 1\<bar> \<le> 2 ^ 53" using n by simp
    then have "to_number (real_of_int (?n + 1)) = Finite (real_of_int (?n + 1))"
      by (rule to_number_int)
    moreover have "real_of_int ?n + 1 = real_of_int (?n + 1)" by simp
    ultimately have "number_add (Finite (of_int ?n)) (Finite 1) = Finite (of_int (?n + 1))"
      by (simp only: number_add.simps)
    then have e: "randomMonth (Finite random) year month =
        getRandom (Finite random) (Finite 1) (Finite (of_int (?n + 1)))"
      by (simp only: randomMonth_def)
    note m = randomMonth_closed [OF n r]
    have "1 \<le> \<lfloor>round_nearest (random * of_int ?n)\<rfloor> + 1"
      "\<lfloor>round_nearest (random * of_int ?n)\<rfloor> + 1 \<le> ?n"
      using m(2,3) by simp_all
    with m(1) e show "randomMonth (Finite random) year month =
        getRandom (Finite random) (Finite 1) (Finite (of_int (?n + 1))) \<and>
      (\<exists>k. randomMonth (Finite random) year month = Finite (of_int k) \<and> 1 \<le> k \<and> k \<le> ?n)"
      by blast
  qed
  from a b c show ?thesis by blast
qed

theorem getRandom_bounds_witness:
  "- (2 ^ 53) \<le> (0::int) \<and> (0::int) < 5 \<and> (5::int) \<le> 2 ^ 53 \<and>
   representable (3 / 4) \<and> (0::real) \<le> 3 / 4 \<and> (3 / 4 :: real) < 1 \<and>
   (1::int) \<le> monthCount 2019 3 \<and> monthCount 2019 3 < 2 ^ 53 \<and>
   (\<exists>k. getRandom (Finite (3 / 4)) (Finite (of_int 0)) (Finite (of_int 5)) = Finite (of_int k) \<and>
        0 \<le> k \<and> k < 5) \<and>
   (\<exists>k. randomMonth (Finite (3 / 4)) 2019 3 = Finite (of_int k) \<and>
        1 \<le> k \<and> k \<le> monthCount 2019 3) \<and>
   getRandom (Finite (3 / 4)) (Finite 0) (Finite 5) = Finite 3 \<and>
   sleep_milliseconds (Finite (3 / 4)) = Finite 5000"
proof -
  note t = getRandom_bounds [of 0 5 "3 / 4" 2019 3]
  have h: "- (2 ^ 53) \<le> (0::int)" "(0::int) < 5" "(5::int) \<le> 2 ^ 53"
    "(0::real) \<le> 3 / 4" "(3 / 4 :: real) < 1"
    "(1::int) \<le> monthCount 2019 3" "monthCount 2019 3 < 2 ^ 53"
    by (simp_all add: monthCount_def)
  have r: "representable (3 / 4)"
    by (rule representable_at [where e = "- 1" and k = 6755399441055744]) simp_all
  from t h r have c1: "\<exists>k. getRandom (Finite (3 / 4)) (Finite (of_int 0)) (Finite (of_int 5)) =
      Finite (of_int k) \<and> 0 \<le> k \<and> k < 5"
    by blast
  from t h r have c2: "\<exists>k. randomMonth (Finite (3 / 4)) 2019 3 = Finite (of_int k) \<and>
        1 \<le> k \<and> k \<le> monthCount 2019 3"
    by blast
  have "round_nearest (3 / 4 * real_of_int (5 - 0)) =
      2 powi (1 - 52) * of_int (round_half_even (3 / 4 * real_of_int (5 - 0) / 2 powi (1 - 52)))"
    by (rule round_nearest_at) simp_all
  also have "\<dots> = 15 / 4"
    by (simp add: round_half_even_def Let_def)
  finally have p: "round_nearest (3 / 4 * real_of_int (5 - 0)) = 15 / 4" .
  have "getRandom (Finite (3 / 4)) (Finite (of_int 0)) (Finite (of_int 5)) =
      Finite (of_int (\<lfloor>round_nearest (3 / 4 * of_int (5 - 0))\<rfloor> + 0))"
    by (rule getRandom_closed(1) [OF _ _ _ _ r]) simp_all
  then have e1: "getRandom (Finite (3 / 4)) (Finite 0) (Finite 5) = Finite 3"
    unfolding p by simp
  have "to_number 3000 = Finite 3000" "to_number 5000 = Finite 5000"
    using to_number_int [of 3000] to_number_int [of 5000] by simp_all
  then have e2: "sleep_milliseconds (Finite (3 / 4)) = Finite 5000"
    by (simp add: sleep_milliseconds_def e1)
  from h r c1 c2 e1 e2 show ?thesis by blast
qed

section \<open>The claims about the extraction\<close>

text \<open>
  C1: the page with exactly one heading \<^verbatim>\<open>h4.non_table_headers\<close> with the text
  \<^verbatim>\<open>12 Smith St, Loxton\<close>, followed by a container with the three rows \<^verbatim>\<open>Type of Work\<close> (Shed),
  \<^verbatim>\<open>Application No.\<close> (2019/0045) and \<^verbatim>\<open>Date Lodged\<close> (3/04/2019), yields exactly one record,
  with that address, description, reference number and the received date 2019-04-03.
\<close>

theorem end_to_end_fixture:
  "length (select_all (is_tag_class ''h4'' ''non_table_headers'') (fixture_page (js ''3/04/2019''))) = 1 \<and>
   heading_rows (fixture_following (js ''2019/0045'') (js ''3/04/2019'')) =
     [(js ''Type of Work'', js ''Shed''), (js ''Application No.'', js ''2019/0045''),
      (js ''Date Lodged'', js ''3/04/2019'')] \<and>
   getResults today (fixture_page (js ''3/04/2019'')) =
     ([\<lparr>applicationNumber = js ''2019/0045'',
        address = js ''12 Smith St, Loxton'',
        description = js ''Shed'',
        informationUrl = DevelopmentApplicationMainUrl,
        scrapeDate = today,
        receivedDate = js ''2019-04-03''\<rparr>],
      [Found (js ''2019/0045'')])"
  by code_simp

lemma scan_heading_vars:
  "fst (scan_heading following console) =
     \<lparr>var_applicationNumber =
        (case last_value (js ''Application No.'') (heading_rows following) of
           None \<Rightarrow> [] | Some v \<Rightarrow> v),
      var_description =
        (case last_value (js ''Type of Work'') (heading_rows following) of
           None \<Rightarrow> [] | Some v \<Rightarrow> v),
      var_receivedDate =
        (case last_value (js ''Date Lodged'') (heading_rows following) of
           None \<Rightarrow> Invalid | Some v \<Rightarrow> moment_strict v)\<rparr>"
  by (simp add: scan_heading_rows scan_rows_closed initial_vars_def split: option.splits)

lemma scan_heading_console:
  "snd (scan_heading following console) =
     console @ map (\<lambda>kv. Found (snd kv))
       (filter (\<lambda>kv. fst kv = js ''Application No.'') (heading_rows following))"
  by (simp add: scan_heading_rows scan_rows_closed)

lemma heading_records_vars:
  "heading_records make_record (e, following) =
     (if var_applicationNumber (fst (scan_heading following [])) \<noteq> [] \<and>
         normalize_address (text_content [e]) \<noteq> []
      then [make_record (normalize_address (text_content [e])) (fst (scan_heading following []))]
      else [])"
  by (simp add: heading_records_closed scan_heading_rows Let_def)

lemma heading_console_vars:
  "heading_console (e, following) =
     snd (scan_heading following []) @
     (if var_applicationNumber (fst (scan_heading following [])) \<noteq> [] \<and>
         normalize_address (text_content [e]) = []
      then [Ignoring (var_applicationNumber (fst (scan_heading following [])))]
      else [])"
  by (simp add: heading_console_closed scan_heading_rows Let_def)

text \<open>
  C9: when several rows below one heading carry the same recognised key, the value of the
  last such row in document order is the one the record gets: each assignment overwrites the
  one before, also a valid lodged date by one that does not parse.  The record that the heading
  adds is given field by field from the last row of each key; when the last row
  \<^verbatim>\<open>Date Lodged\<close> does not parse, the received date of the record is empty whatever the rows
  before it held.
\<close>

theorem last_row_wins:
  "fst (scan_heading following console) =
     \<lparr>var_applicationNumber =
        (case last_value (js ''Application No.'') (heading_rows following) of
           None \<Rightarrow> [] | Some v \<Rightarrow> v),
      var_description =
        (case last_value (js ''Type of Work'') (heading_rows following) of
           None \<Rightarrow> [] | Some v \<Rightarrow> v),
      var_receivedDate =
        (case last_value (js ''Date Lodged'') (heading_rows following) of
           None \<Rightarrow> Invalid | Some v \<Rightarrow> moment_strict v)\<rparr> \<and>
   heading_records (make_application today) (e, following) =
     (case last_value (js ''Application No.'') (heading_rows following) of
        None \<Rightarrow> []
      | Some number \<Rightarrow>
          if number \<noteq> [] \<and> normalize_address (text_content [e]) \<noteq> []
          then [\<lparr>applicationNumber = number,
                 address = normalize_address (text_content [e]),
                 description =
                   (case last_value (js ''Type of Work'') (heading_rows following) of
                      None \<Rightarrow> js ''No Description Provided''
                    | Some work \<Rightarrow> if work = [] then js ''No Description Provided'' else work),
                 informationUrl = DevelopmentApplicationMainUrl,
                 scrapeDate = today,
                 receivedDate =
                   (case last_value (js ''Date Lodged'') (heading_rows following) of
                      None \<Rightarrow> []
                    | Some lodged \<Rightarrow> receivedDate_text (moment_strict lodged))\<rparr>]
          else []) \<and>
   fst (getResults today page) =
     concat (map (heading_records (make_application today))
       (select_all (is_tag_class ''h4'' ''non_table_headers'') page)) \<and>
   (last_value (js ''Date Lodged'') (heading_rows following) = Some lodged \<and>
    \<not> isValid (moment_strict lodged) \<longrightarrow>
      (\<forall>r \<in> set (heading_records (make_application today) (e, following)). receivedDate r = [])) \<and>
   last_value key (rows @ [(key, val)]) = Some val \<and>
   (key' \<noteq> key \<longrightarrow> last_value key (rows @ [(key', val)]) = last_value key rows)"
proof -
  let ?number = "last_value (js ''Application No.'') (heading_rows following)"
  let ?work = "last_value (js ''Type of Work'') (heading_rows following)"
  let ?lodged = "last_value (js ''Date Lodged'') (heading_rows following)"
  have a: "fst (scan_heading following console) =
     \<lparr>var_applicationNumber = (case ?number of None \<Rightarrow> [] | Some v \<Rightarrow> v),
      var_description = (case ?work of None \<Rightarrow> [] | Some v \<Rightarrow> v),
      var_receivedDate = (case ?lodged of None \<Rightarrow> Invalid | Some v \<Rightarrow> moment_strict v)\<rparr>"
    by (rule scan_heading_vars)
  have d: "receivedDate_text (case ?lodged of None \<Rightarrow> Invalid | Some v \<Rightarrow> moment_strict v) =
      (case ?lodged of None \<Rightarrow> [] | Some lodged \<Rightarrow> receivedDate_text (moment_strict lodged))"
    by (simp add: receivedDate_text_def isValid_def split: option.splits)
  have w: "(if (case ?work of None \<Rightarrow> [] | Some v \<Rightarrow> v) = [] then js ''No Description Provided''
       else (case ?work of None \<Rightarrow> [] | Some v \<Rightarrow> v)) =
      (case ?work of None \<Rightarrow> js ''No Description Provided''
       | Some work \<Rightarrow> if work = [] then js ''No Description Provided'' else work)"
    by (simp split: option.splits)
  have b: "heading_records (make_application today) (e, following) =
     (case ?number of
        None \<Rightarrow> []
      | Some number \<Rightarrow>
          if number \<noteq> [] \<and> normalize_address (text_content [e]) \<noteq> []
          then [\<lparr>applicationNumber = number,
                 address = normalize_address (text_content [e]),
                 description =
                   (case ?work of
                      None \<Rightarrow> js ''No Description Provided''
                    | Some work \<Rightarrow> if work = [] then js ''No Description Provided'' else work),
                 informationUrl = DevelopmentApplicationMainUrl,
                 scrapeDate = today,
                 receivedDate =
                   (case ?lodged of
                      None \<Rightarrow> []
                    | Some lodged \<Rightarrow> receivedDate_text (moment_strict lodged))\<rparr>]
          else [])"
    unfolding heading_records_vars scan_heading_vars make_application_def
    by (cases ?number) (auto simp: d split: option.splits)
  have c: "fst (getResults today page) =
     concat (map (heading_records (make_application today))
       (select_all (is_tag_class ''h4'' ''non_table_headers'') page))"
    by (simp add: getResults_closed)
  have f: "last_value (js ''Date Lodged'') (heading_rows following) = Some lodged \<and>
    \<not> isValid (moment_strict lodged) \<longrightarrow>
      (\<forall>r \<in> set (heading_records (make_application today) (e, following)). receivedDate r = [])"
    unfolding b by (auto simp: receivedDate_text_def split: option.splits if_splits)
  have g: "last_value key (rows @ [(key, val)]) = Some val"
    by (simp add: last_value_snoc)
  have h: "key' \<noteq> key \<longrightarrow> last_value key (rows @ [(key', val)]) = last_value key rows"
    by (simp add: last_value_snoc)
  from a b c f g h show ?thesis by (simp only: simp_thms)
qed

theorem last_row_wins_witness:
  "js ''Date'' \<noteq> js ''Date Lodged'' \<and>
   last_value (js ''Date Lodged'') ([(js ''Date Lodged'', js ''3/04/2019'')] @ [(js ''Date'', js ''x'')])
     = last_value (js ''Date Lodged'') [(js ''Date Lodged'', js ''3/04/2019'')] \<and>
   heading_rows fixture_repeated_rows =
     [(js ''Date Lodged'', js ''3/04/2019''), (js ''Application No.'', js ''2019/0001''),
      (js ''Type of Work'', js ''Shed''), (js ''Application No.'', js ''2019/0045''),
      (js ''Type of Work'', js ''Verandah''), (js ''Date Lodged'', js ''31/02/2019'')] \<and>
   moment_strict (js ''3/04/2019'') = Valid 2019 4 3 \<and>
   receivedDate_text (moment_strict (js ''3/04/2019'')) = js ''2019-04-03'' \<and>
   last_value (js ''Date Lodged'') (heading_rows fixture_repeated_rows) = Some (js ''31/02/2019'') \<and>
   \<not> isValid (moment_strict (js ''31/02/2019'')) \<and>
   fst (scan_heading fixture_repeated_rows []) =
     \<lparr>var_applicationNumber = js ''2019/0045'', var_description = js ''Verandah'',
      var_receivedDate = Invalid\<rparr> \<and>
   heading_records (make_application (js ''2019-04-10''))
       (fixture_heading (js ''12 Smith St, Loxton''), fixture_repeated_rows) =
     [\<lparr>applicationNumber = js ''2019/0045'',
       address = js ''12 Smith St, Loxton'',
       description = js ''Verandah'',
       informationUrl = DevelopmentApplicationMainUrl,
       scrapeDate = js ''2019-04-10'',
       receivedDate = []\<rparr>] \<and>
   list_all (\<lambda>r. receivedDate r = [])
     (heading_records (make_application (js ''2019-04-10''))
        (fixture_heading (js ''12 Smith St, Loxton''), fixture_repeated_rows)) \<and>
   fst (getResults (js ''2019-04-10'')
          (fixture_heading (js ''12 Smith St, Loxton'') # fixture_repeated_rows)) =
     [\<lparr>applicationNumber = js ''2019/0045'',
       address = js ''12 Smith St, Loxton'',
       description = js ''Verandah'',
       informationUrl = DevelopmentApplicationMainUrl,
       scrapeDate = js ''2019-04-10'',
       receivedDate = []\<rparr>]"
proof -
  have ne: "js ''Date'' \<noteq> js ''Date Lodged''"
    by (simp add: js_def)
  note t = last_row_wins [where following = fixture_repeated_rows and console = "[]"
      and today = "js ''2019-04-10''" and e = "fixture_heading (js ''12 Smith St, Loxton'')"
      and page = "fixture_heading (js ''12 Smith St, Loxton'') # fixture_repeated_rows"
      and lodged = "js ''31/02/2019''" and key = "js ''Date Lodged''"
      and rows = "[(js ''Date Lodged'', js ''3/04/2019'')]" and val = "js ''x''"
      and key' = "js ''Date''"]
  from t ne have 1: "last_value (js ''Date Lodged'')
      ([(js ''Date Lodged'', js ''3/04/2019'')] @ [(js ''Date'', js ''x'')])
     = last_value (js ''Date Lodged'') [(js ''Date Lodged'', js ''3/04/2019'')]"
    by blast
  have rows: "heading_rows fixture_repeated_rows =
     [(js ''Date Lodged'', js ''3/04/2019''), (js ''Application No.'', js ''2019/0001''),
      (js ''Type of Work'', js ''Shed''), (js ''Application No.'', js ''2019/0045''),
      (js ''Type of Work'', js ''Verandah''), (js ''Date Lodged'', js ''31/02/2019'')]"
    by code_simp
  have 2: "(case last_value (js ''Application No.'') (heading_rows fixture_repeated_rows) of
             None \<Rightarrow> [] | Some v \<Rightarrow> v) = js ''2019/0045''"
    by code_simp
  have 3: "(case last_value (js ''Type of Work'') (heading_rows fixture_repeated_rows) of
             None \<Rightarrow> [] | Some v \<Rightarrow> v) = js ''Verandah''"
    by code_simp
  have 4: "(case last_value (js ''Date Lodged'') (heading_rows fixture_repeated_rows) of
             None \<Rightarrow> Invalid | Some v \<Rightarrow> moment_strict v) = Invalid"
    by code_simp
  have 5: "moment_strict (js ''3/04/2019'') = Valid 2019 4 3"
    "receivedDate_text (moment_strict (js ''3/04/2019'')) = js ''2019-04-03''"
    by code_simp+
  have h1: "last_value (js ''Date Lodged'') (heading_rows fixture_repeated_rows) =
      Some (js ''31/02/2019'')"
    by code_simp
  have h2: "\<not> isValid (moment_strict (js ''31/02/2019''))"
    by code_simp
  from t have "fst (scan_heading fixture_repeated_rows []) =
     \<lparr>var_applicationNumber =
        (case last_value (js ''Application No.'') (heading_rows fixture_repeated_rows) of
           None \<Rightarrow> [] | Some v \<Rightarrow> v),
      var_description =
        (case last_value (js ''Type of Work'') (heading_rows fixture_repeated_rows) of
           None \<Rightarrow> [] | Some v \<Rightarrow> v),
      var_receivedDate =
        (case last_value (js ''Date Lodged'') (heading_rows fixture_repeated_rows) of
           None \<Rightarrow> Invalid | Some v \<Rightarrow> moment_strict v)\<rparr>"
    by (rule conjunct1)
  then have 6: "fst (scan_heading fixture_repeated_rows []) =
     \<lparr>var_applicationNumber = js ''2019/0045'', var_description = js ''Verandah'',
      var_receivedDate = Invalid\<rparr>"
    unfolding 2 3 4 .
  have ev: "(case last_value (js ''Application No.'') (heading_rows fixture_repeated_rows) of
        None \<Rightarrow> []
      | Some number \<Rightarrow>
          if number \<noteq> [] \<and>
             normalize_address (text_content [fixture_heading (js ''12 Smith St, Loxton'')]) \<noteq> []
          then [\<lparr>applicationNumber = number,
                 address = normalize_address (text_content [fixture_heading (js ''12 Smith St, Loxton'')]),
                 description =
                   (case last_value (js ''Type of Work'') (heading_rows fixture_repeated_rows) of
                      None \<Rightarrow> js ''No Description Provided''
                    | Some work \<Rightarrow> if work = [] then js ''No Description Provided'' else work),
                 informationUrl = DevelopmentApplicationMainUrl,
                 scrapeDate = js ''2019-04-10'',
                 receivedDate =
                   (case last_value (js ''Date Lodged'') (heading_rows fixture_repeated_rows) of
                      None \<Rightarrow> []
                    | Some lodged \<Rightarrow> receivedDate_text (moment_strict lodged))\<rparr>]
          else []) =
     [\<lparr>applicationNumber = js ''2019/0045'',
       address = js ''12 Smith St, Loxton'',
       description = js ''Verandah'',
       informationUrl = DevelopmentApplicationMainUrl,
       scrapeDate = js ''2019-04-10'',
       receivedDate = []\<rparr>]"
    by code_simp
  from t have "heading_records (make_application (js ''2019-04-10''))
       (fixture_heading (js ''12 Smith St, Loxton''), fixture_repeated_rows) =
     (case last_value (js ''Application No.'') (heading_rows fixture_repeated_rows) of
        None \<Rightarrow> []
      | Some number \<Rightarrow>
          if number \<noteq> [] \<and>
             normalize_address (text_content [fixture_heading (js ''12 Smith St, Loxton'')]) \<noteq> []
          then [\<lparr>applicationNumber = number,
                 address = normalize_address (text_content [fixture_heading (js ''12 Smith St, Loxton'')]),
                 description =
                   (case last_value (js ''Type of Work'') (heading_rows fixture_repeated_rows) of
                      None \<Rightarrow> js ''No Description Provided''
                    | Some work \<Rightarrow> if work = [] then js ''No Description Provided'' else work),
                 informationUrl = DevelopmentApplicationMainUrl,
                 scrapeDate = js ''2019-04-10'',
                 receivedDate =
                   (case last_value (js ''Date Lodged'') (heading_rows fixture_repeated_rows) of
                      None \<Rightarrow> []
                    | Some lodged \<Rightarrow> receivedDate_text (moment_strict lodged))\<rparr>]
          else [])"
    by (rule conjunct1 [OF conjunct2])
  then have 7: "heading_records (make_application (js ''2019-04-10''))
       (fixture_heading (js ''12 Smith St, Loxton''), fixture_repeated_rows) =
     [\<lparr>applicationNumber = js ''2019/0045'',
       address = js ''12 Smith St, Loxton'',
       description = js ''Verandah'',
       informationUrl = DevelopmentApplicationMainUrl,
       scrapeDate = js ''2019-04-10'',
       receivedDate = []\<rparr>]"
    unfolding ev .
  from t h1 h2 have 8: "\<forall>r \<in> set (heading_records (make_application (js ''2019-04-10''))
        (fixture_heading (js ''12 Smith St, Loxton''), fixture_repeated_rows)). receivedDate r = []"
    by blast
  have 9: "fst (getResults (js ''2019-04-10'')
          (fixture_heading (js ''12 Smith St, Loxton'') # fixture_repeated_rows)) =
     [\<lparr>applicationNumber = js ''2019/0045'',
       address = js ''12 Smith St, Loxton'',
       description = js ''Verandah'',
       informationUrl = DevelopmentApplicationMainUrl,
       scrapeDate = js ''2019-04-10'',
       receivedDate = []\<rparr>]"
    by code_simp
  from ne 1 rows 5 h1 h2 6 7 8 9 show ?thesis
    unfolding list_all_iff by blast
qed

lemma placeholder_not_empty: "js ''No Description Provided'' \<noteq> []"
  by (simp add: js_def)

lemma normalize_address_clean:
  "no_surrounding_ws (normalize_address s) \<and> no_adjacent_ws (normalize_address s)"
  by (simp add: normalize_address_def no_adjacent_replace replace_no_surrounding trim_no_surrounding)

lemma trim_parts:
  "s = takeWhile is_space s @ trim s @ rev (takeWhile is_space (rev (dropWhile is_space s)))"
proof -
  let ?t = "dropWhile is_space s"
  have "rev (dropWhile is_space (rev ?t)) @ rev (takeWhile is_space (rev ?t)) =
        rev (takeWhile is_space (rev ?t) @ dropWhile is_space (rev ?t))"
    by (simp only: rev_append)
  also have "\<dots> = ?t"
    by (simp only: takeWhile_dropWhile_id rev_rev_ident)
  finally have "?t = trim s @ rev (takeWhile is_space (rev ?t))"
    by (simp only: trim_def)
  moreover have "s = takeWhile is_space s @ ?t"
    by simp
  ultimately show ?thesis by simp
qed

text \<open>
  C5: the address is the heading's text, trimmed of leading and trailing whitespace, with every
  run of two or more whitespace characters replaced by exactly one space (a run between two
  parts that do not touch it with whitespace is replaced on its own, and text without
  neighbouring whitespace is unchanged); so the address of every record has no two whitespace
  characters next to each other and no whitespace at either end.
\<close>

theorem address_normalization:
  "normalize_address s = replace_ws_runs (trim s) \<and>
   (\<exists>before after. s = before @ trim s @ after \<and>
      (\<forall>c \<in> set before. is_space c) \<and> (\<forall>c \<in> set after. is_space c)) \<and>
   no_surrounding_ws (trim s) \<and>
   ((\<forall>c \<in> set run. is_space c) \<and> 2 \<le> length run \<and>
    (xs = [] \<or> \<not> is_space (last xs)) \<and> (ys = [] \<or> \<not> is_space (hd ys)) \<longrightarrow>
      replace_ws_runs (xs @ run @ ys) = replace_ws_runs xs @ [0x20] @ replace_ws_runs ys) \<and>
   (no_adjacent_ws t \<longrightarrow> replace_ws_runs t = t) \<and>
   no_adjacent_ws (normalize_address s) \<and> no_surrounding_ws (normalize_address s) \<and>
   (\<forall>r \<in> set (fst (getResults today page)).
      no_adjacent_ws (address r) \<and> no_surrounding_ws (address r)) \<and>
   (\<forall>r \<in> set (fst (getResults_part000 today page)).
      no_adjacent_ws (address r) \<and> no_surrounding_ws (address r))"
proof -
  have a: "\<exists>before after. s = before @ trim s @ after \<and>
      (\<forall>c \<in> set before. is_space c) \<and> (\<forall>c \<in> set after. is_space c)"
  proof (intro exI conjI)
    show "s = takeWhile is_space s @ trim s @ rev (takeWhile is_space (rev (dropWhile is_space s)))"
      by (rule trim_parts)
    show "\<forall>c \<in> set (takeWhile is_space s). is_space c"
      by (auto dest: set_takeWhileD)
    show "\<forall>c \<in> set (rev (takeWhile is_space (rev (dropWhile is_space s)))). is_space c"
      by (auto dest: set_takeWhileD)
  qed
  have b: "(\<forall>c \<in> set run. is_space c) \<and> 2 \<le> length run \<and>
    (xs = [] \<or> \<not> is_space (last xs)) \<and> (ys = [] \<or> \<not> is_space (hd ys)) \<longrightarrow>
      replace_ws_runs (xs @ run @ ys) = replace_ws_runs xs @ [0x20] @ replace_ws_runs ys"
    using replace_run_middle [of run ys xs] by simp
  have c: "no_adjacent_ws t \<longrightarrow> replace_ws_runs t = t"
    by (simp add: replace_id)
  have d: "\<forall>r \<in> set (fst (getResults today page)).
      no_adjacent_ws (address r) \<and> no_surrounding_ws (address r)"
  proof
    fix r assume "r \<in> set (fst (getResults today page))"
    then have "r \<in> set (concat (map (heading_records (make_application today))
        (select_all (is_tag_class ''h4'' ''non_table_headers'') page)))"
      by (simp only: getResults_closed fst_conv)
    from emitted_record [OF this] obtain h :: "node \<times> node list" and vars where
      "r = make_application today (normalize_address (text_content [fst h])) vars"
      by blast
    then show "no_adjacent_ws (address r) \<and> no_surrounding_ws (address r)"
      by (simp add: make_application_def normalize_address_clean)
  qed
  have e: "\<forall>r \<in> set (fst (getResults_part000 today page)).
      no_adjacent_ws (address r) \<and> no_surrounding_ws (address r)"
  proof
    fix r assume "r \<in> set (fst (getResults_part000 today page))"
    then have "r \<in> set (concat (map (heading_records (make_application_part000 today))
        (select_all (is_tag_class ''h4'' ''non_table_headers'') page)))"
      by (simp only: getResults_part000_closed fst_conv)
    from emitted_record [OF this] obtain h :: "node \<times> node list" and vars where
      "r = make_application_part000 today (normalize_address (text_content [fst h])) vars"
      by blast
    then show "no_adjacent_ws (address r) \<and> no_surrounding_ws (address r)"
      by (simp add: make_application_part000_def normalize_address_clean)
  qed
  from a b c d e show ?thesis
    using normalize_address_clean [of s] trim_no_surrounding [of s]
    by (simp only: normalize_address_def simp_thms)
qed

theorem address_normalization_witness:
  "list_all is_space [0x20, 0x09, 0xA0] \<and> 2 \<le> length [0x20, 0x09, 0xA0 :: 16 word] \<and>
   \<not> is_space (last (js ''12'')) \<and> \<not> is_space (hd (js ''Smith'')) \<and>
   replace_ws_runs (js ''12'' @ [0x20, 0x09, 0xA0] @ js ''Smith'') = js ''12 Smith'' \<and>
   no_adjacent_ws (js ''12 Smith St'') \<and> replace_ws_runs (js ''12 Smith St'') = js ''12 Smith St'' \<and>
   normalize_address (js ''  12   Smith St,  Loxton '') = js ''12 Smith St, Loxton'' \<and>
   fst (getResults [] (fixture_page [])) \<noteq> [] \<and>
   fst (getResults_part000 [] (fixture_page [])) \<noteq> [] \<and>
   list_all (\<lambda>r. no_adjacent_ws (address r)) (fst (getResults [] (fixture_page []))) \<and>
   list_all (\<lambda>r. no_adjacent_ws (address r)) (fst (getResults_part000 [] (fixture_page [])))"
proof -
  note t = address_normalization [of "js ''  12   Smith St,  Loxton ''" "[0x20, 0x09, 0xA0]"
      "js ''12''" "js ''Smith''" "js ''12 Smith St''" "[]" "fixture_page []"]
  have h1: "\<forall>c \<in> set [0x20, 0x09, 0xA0]. is_space c"
    by (simp add: is_space_def)
  have h2: "2 \<le> length [0x20, 0x09, 0xA0 :: 16 word]"
    by simp
  have h3: "\<not> is_space (last (js ''12''))" "\<not> is_space (hd (js ''Smith''))"
    by (simp_all add: is_space_def js_def)
  have h4: "no_adjacent_ws (js ''12 Smith St'')"
    by code_simp
  from t h1 h2 h3 have "replace_ws_runs (js ''12'' @ [0x20, 0x09, 0xA0] @ js ''Smith'') =
      replace_ws_runs (js ''12'') @ [0x20] @ replace_ws_runs (js ''Smith'')"
    by blast
  moreover have "replace_ws_runs (js ''12'') @ [0x20] @ replace_ws_runs (js ''Smith'') = js ''12 Smith''"
    by code_simp
  ultimately have c1: "replace_ws_runs (js ''12'' @ [0x20, 0x09, 0xA0] @ js ''Smith'') = js ''12 Smith''"
    by simp
  from t h4 have c2: "replace_ws_runs (js ''12 Smith St'') = js ''12 Smith St''"
    by blast
  have c3: "normalize_address (js ''  12   Smith St,  Loxton '') = js ''12 Smith St, Loxton''"
    by code_simp
  have c4: "fst (getResults [] (fixture_page [])) \<noteq> []"
    "fst (getResults_part000 [] (fixture_page [])) \<noteq> []"
    by code_simp+
  from t have c5: "\<forall>r \<in> set (fst (getResults [] (fixture_page []))). no_adjacent_ws (address r)"
     "\<forall>r \<in> set (fst (getResults_part000 [] (fixture_page []))). no_adjacent_ws (address r)"
    by blast+
  from h1 h2 h3 h4 c1 c2 c3 c4 c5 show ?thesis
    unfolding list_all_iff by blast
qed

lemma getResults_emitted:
  assumes "r \<in> set (fst (getResults today page))"
  shows "\<exists>h \<in> set (select_all (is_tag_class ''h4'' ''non_table_headers'') page).
           var_applicationNumber (fst (scan_heading (snd h) [])) \<noteq> [] \<and>
           normalize_address (text_content [fst h]) \<noteq> [] \<and>
           r = make_application today (normalize_address (text_content [fst h]))
                 (fst (scan_heading (snd h) []))"
proof -
  from assms have "r \<in> set (concat (map (heading_records (make_application today))
        (select_all (is_tag_class ''h4'' ''non_table_headers'') page)))"
    by (simp only: getResults_closed fst_conv)
  from emitted_record [OF this] show ?thesis by blast
qed

lemma getResults_part000_emitted:
  assumes "r \<in> set (fst (getResults_part000 today page))"
  shows "\<exists>h \<in> set (select_all (is_tag_class ''h4'' ''non_table_headers'') page).
           var_applicationNumber (fst (scan_heading (snd h) [])) \<noteq> [] \<and>
           normalize_address (text_content [fst h]) \<noteq> [] \<and>
           r = make_application_part000 today (normalize_address (text_content [fst h]))
                 (fst (scan_heading (snd h) []))"
proof -
  from assms have "r \<in> set (concat (map (heading_records (make_application_part000 today))
        (select_all (is_tag_class ''h4'' ''non_table_headers'') page)))"
    by (simp only: getResults_part000_closed fst_conv)
  from emitted_record [OF this] show ?thesis by blast
qed

lemma no_number_row:
  assumes "\<forall>kv \<in> set rows. fst kv \<noteq> key"
  shows "last_value key rows = None"
  using assms by (force simp: last_value_def map_of_eq_None_iff)

lemma insertRows_rows:
  assumes "fst (insertRows database das engine_errors) k = Some row"
  shows "database k = Some row \<or> (\<exists>da \<in> set das. k = applicationNumber da \<and> row = row_of da)"
  using assms
proof (induction das arbitrary: database engine_errors)
  case Nil
  then show ?case by simp
next
  case (Cons da das)
  show ?case
  proof (cases "case engine_errors of [] \<Rightarrow> None | engine_error # later \<Rightarrow> engine_error")
    case (Some error)
    with Cons.prems show ?thesis
      by (simp add: insertRow_def)
  next
    case None
    let ?db = "database(applicationNumber da \<mapsto> row_of da)"
    from None Cons.prems have "fst (insertRows ?db das (tl engine_errors)) k = Some row"
      by (simp add: insertRow_def row_of_def)
    from Cons.IH [OF this] show ?thesis
      by (auto split: if_splits)
  qed
qed

text \<open>
  C4: what one heading adds.  A record is pushed if and only if the reference number captured
  from the rows and the normalised address are both non-empty; with a reference number and an
  empty address nothing is pushed and the console gets the line that the application is
  ignored; with no row \<^verbatim>\<open>Application No.\<close> (in particular with no rows at all) nothing is pushed
  and nothing is written.  So no record of the result has an empty reference number or an
  empty address, and every row that the loop of \<^verbatim>\<open>main\<close> puts into the table is the row of such
  a record.
\<close>

theorem acceptance_policy:
  "header_step make_record (e, following) (developmentApplications, console) =
     (developmentApplications @ heading_records make_record (e, following),
      console @ heading_console (e, following)) \<and>
   heading_records make_record (e, following) =
     (if var_applicationNumber (fst (scan_heading following [])) \<noteq> [] \<and>
         normalize_address (text_content [e]) \<noteq> []
      then [make_record (normalize_address (text_content [e])) (fst (scan_heading following []))]
      else []) \<and>
   (var_applicationNumber (fst (scan_heading following [])) \<noteq> [] \<and>
    normalize_address (text_content [e]) = [] \<longrightarrow>
      heading_records make_record (e, following) = [] \<and>
      heading_console (e, following) =
        snd (scan_heading following []) @
        [Ignoring (var_applicationNumber (fst (scan_heading following [])))]) \<and>
   ((\<forall>kv \<in> set (heading_rows following). fst kv \<noteq> js ''Application No.'') \<longrightarrow>
      var_applicationNumber (fst (scan_heading following [])) = [] \<and>
      heading_records make_record (e, following) = [] \<and>
      heading_console (e, following) = []) \<and>
   (heading_rows following = [] \<longrightarrow>
      heading_records make_record (e, following) = [] \<and> heading_console (e, following) = []) \<and>
   (\<forall>r \<in> set (fst (getResults today page)). applicationNumber r \<noteq> [] \<and> address r \<noteq> []) \<and>
   (\<forall>r \<in> set (fst (getResults_part000 today page)). applicationNumber r \<noteq> [] \<and> address r \<noteq> []) \<and>
   (fst (insertRows database (fst (getResults today page)) engine_errors) k = Some row \<longrightarrow>
      database k = Some row \<or>
      (\<exists>r \<in> set (fst (getResults today page)).
         row = row_of r \<and> applicationNumber r \<noteq> [] \<and> address r \<noteq> []))"
proof -
  have a: "header_step make_record (e, following) (developmentApplications, console) =
     (developmentApplications @ heading_records make_record (e, following),
      console @ heading_console (e, following))"
    by (rule header_step_split)
  have b: "heading_records make_record (e, following) =
     (if var_applicationNumber (fst (scan_heading following [])) \<noteq> [] \<and>
         normalize_address (text_content [e]) \<noteq> []
      then [make_record (normalize_address (text_content [e])) (fst (scan_heading following []))]
      else [])"
    by (rule heading_records_vars)
  have c: "var_applicationNumber (fst (scan_heading following [])) \<noteq> [] \<and>
    normalize_address (text_content [e]) = [] \<longrightarrow>
      heading_records make_record (e, following) = [] \<and>
      heading_console (e, following) =
        snd (scan_heading following []) @
        [Ignoring (var_applicationNumber (fst (scan_heading following [])))]"
    by (simp add: heading_records_vars heading_console_vars)
  have d: "(\<forall>kv \<in> set (heading_rows following). fst kv \<noteq> js ''Application No.'') \<longrightarrow>
      var_applicationNumber (fst (scan_heading following [])) = [] \<and>
      heading_records make_record (e, following) = [] \<and>
      heading_console (e, following) = []"
  proof
    assume n: "\<forall>kv \<in> set (heading_rows following). fst kv \<noteq> js ''Application No.''"
    then have "filter (\<lambda>kv. fst kv = js ''Application No.'') (heading_rows following) = []"
      by (simp add: filter_empty_conv)
    then show "var_applicationNumber (fst (scan_heading following [])) = [] \<and>
      heading_records make_record (e, following) = [] \<and>
      heading_console (e, following) = []"
      using no_number_row [OF n]
      by (simp add: heading_records_vars heading_console_vars scan_heading_vars scan_heading_console)
  qed
  have e: "heading_rows following = [] \<longrightarrow>
      heading_records make_record (e, following) = [] \<and> heading_console (e, following) = []"
    using d by simp
  have f: "\<forall>r \<in> set (fst (getResults today page)). applicationNumber r \<noteq> [] \<and> address r \<noteq> []"
  proof
    fix r assume "r \<in> set (fst (getResults today page))"
    from getResults_emitted [OF this] obtain h :: "node \<times> node list" where
      "var_applicationNumber (fst (scan_heading (snd h) [])) \<noteq> []"
      "normalize_address (text_content [fst h]) \<noteq> []"
      "r = make_application today (normalize_address (text_content [fst h]))
             (fst (scan_heading (snd h) []))"
      by blast
    then show "applicationNumber r \<noteq> [] \<and> address r \<noteq> []"
      by (simp add: make_application_def)
  qed
  have g: "\<forall>r \<in> set (fst (getResults_part000 today page)).
      applicationNumber r \<noteq> [] \<and> address r \<noteq> []"
  proof
    fix r assume "r \<in> set (fst (getResults_part000 today page))"
    from getResults_part000_emitted [OF this] obtain h :: "node \<times> node list" where
      "var_applicationNumber (fst (scan_heading (snd h) [])) \<noteq> []"
      "normalize_address (text_content [fst h]) \<noteq> []"
      "r = make_application_part000 today (normalize_address (text_content [fst h]))
             (fst (scan_heading (snd h) []))"
      by blast
    then show "applicationNumber r \<noteq> [] \<and> address r \<noteq> []"
      by (simp add: make_application_part000_def)
  qed
  have h: "fst (insertRows database (fst (getResults today page)) engine_errors) k = Some row \<longrightarrow>
      database k = Some row \<or>
      (\<exists>r \<in> set (fst (getResults today page)).
         row = row_of r \<and> applicationNumber r \<noteq> [] \<and> address r \<noteq> [])"
    using insertRows_rows [of database "fst (getResults today page)" engine_errors k row] f
    by blast
  from a b c d e f g h show ?thesis by (simp only: simp_thms)
qed

theorem acceptance_policy_witness:
  "var_applicationNumber (fst (scan_heading fixture_number_only [])) \<noteq> [] \<and>
   normalize_address (text_content [fixture_heading [0x20, 0x0A]]) = [] \<and>
   heading_records (make_application []) (fixture_heading [0x20, 0x0A], fixture_number_only) = [] \<and>
   heading_console (fixture_heading [0x20, 0x0A], fixture_number_only) =
     [Found (js ''2019/0045''), Ignoring (js ''2019/0045'')] \<and>
   list_all (\<lambda>kv. fst kv \<noteq> js ''Application No.'') (heading_rows fixture_work_only) \<and>
   heading_rows fixture_work_only \<noteq> [] \<and>
   heading_records (make_application []) (fixture_heading (js ''12 Smith St''), fixture_work_only) = [] \<and>
   heading_console (fixture_heading (js ''12 Smith St''), fixture_work_only) = [] \<and>
   heading_rows [Text [0x0A], Element ''p'' [] []] = [] \<and>
   heading_records (make_application []) (fixture_heading (js ''12 Smith St''), [Text [0x0A], Element ''p'' [] []]) = [] \<and>
   fst (getResults [] (fixture_page [])) \<noteq> [] \<and>
   list_all (\<lambda>r. address r \<noteq> []) (fst (getResults [] (fixture_page []))) \<and>
   fst (getResults_part000 [] (fixture_page [])) \<noteq> [] \<and>
   list_all (\<lambda>r. address r \<noteq> []) (fst (getResults_part000 [] (fixture_page []))) \<and>
   fst (insertRows Map.empty (fst (getResults [] (fixture_page []))) ([] :: unit option list))
     (js ''2019/0045'') =
     Some (row_of (fixture_application (js ''12 Smith St, Loxton'')
             \<lparr>scrapeDate := [], receivedDate := []\<rparr>)) \<and>
   (\<exists>r \<in> set (fst (getResults [] (fixture_page []))).
      row_of (fixture_application (js ''12 Smith St, Loxton'')
        \<lparr>scrapeDate := [], receivedDate := []\<rparr>) = row_of r \<and> address r \<noteq> [])"
proof -
  note t1 = acceptance_policy [where make_record = "make_application []"
      and e = "fixture_heading [0x20, 0x0A]" and following = fixture_number_only
      and today = "[]" and page = "fixture_page []" and database = Map.empty
      and engine_errors = "[] :: unit option list" and k = "js ''2019/0045''"
      and row = "row_of (fixture_application (js ''12 Smith St, Loxton'')
        \<lparr>scrapeDate := [], receivedDate := []\<rparr>)"]
  have h7: "fst (insertRows Map.empty (fst (getResults [] (fixture_page []))) ([] :: unit option list))
     (js ''2019/0045'') =
     Some (row_of (fixture_application (js ''12 Smith St, Loxton'')
             \<lparr>scrapeDate := [], receivedDate := []\<rparr>))"
    by code_simp
  from t1 h7 have c5: "\<exists>r \<in> set (fst (getResults [] (fixture_page []))).
      row_of (fixture_application (js ''12 Smith St, Loxton'')
        \<lparr>scrapeDate := [], receivedDate := []\<rparr>) = row_of r \<and> address r \<noteq> []"
    by simp blast
  note t2 = acceptance_policy [where make_record = "make_application []"
      and e = "fixture_heading (js ''12 Smith St'')" and following = fixture_work_only]
  note t3 = acceptance_policy [where make_record = "make_application []"
      and e = "fixture_heading (js ''12 Smith St'')" and following = "[Text [0x0A], Element ''p'' [] []]"]
  have h1: "var_applicationNumber (fst (scan_heading fixture_number_only [])) \<noteq> []"
    by code_simp
  have h2: "normalize_address (text_content [fixture_heading [0x20, 0x0A]]) = []"
    by code_simp
  have h3: "\<forall>kv \<in> set (heading_rows fixture_work_only). fst kv \<noteq> js ''Application No.''"
    by code_simp
  have h4: "heading_rows fixture_work_only \<noteq> []"
    by code_simp
  have h5: "heading_rows [Text [0x0A], Element ''p'' [] []] = []"
    by code_simp
  have h6: "fst (getResults [] (fixture_page [])) \<noteq> []"
    "fst (getResults_part000 [] (fixture_page [])) \<noteq> []"
    by code_simp+
  have v: "snd (scan_heading fixture_number_only []) = [Found (js ''2019/0045'')]"
    "var_applicationNumber (fst (scan_heading fixture_number_only [])) = js ''2019/0045''"
    by code_simp+
  from t1 h1 h2 have c1:
    "heading_records (make_application []) (fixture_heading [0x20, 0x0A], fixture_number_only) = []"
    "heading_console (fixture_heading [0x20, 0x0A], fixture_number_only) =
      snd (scan_heading fixture_number_only []) @
        [Ignoring (var_applicationNumber (fst (scan_heading fixture_number_only [])))]"
    by blast+
  from c1(2) have c1': "heading_console (fixture_heading [0x20, 0x0A], fixture_number_only) =
     [Found (js ''2019/0045''), Ignoring (js ''2019/0045'')]"
    unfolding v by simp
  from t2 h3 have c2:
    "heading_records (make_application []) (fixture_heading (js ''12 Smith St''), fixture_work_only) = []"
    "heading_console (fixture_heading (js ''12 Smith St''), fixture_work_only) = []"
    by blast+
  from t3 h5 have c3:
    "heading_records (make_application []) (fixture_heading (js ''12 Smith St''), [Text [0x0A], Element ''p'' [] []]) = []"
    by blast
  from t1 have c4: "\<forall>r \<in> set (fst (getResults [] (fixture_page []))). address r \<noteq> []"
    "\<forall>r \<in> set (fst (getResults_part000 [] (fixture_page []))). address r \<noteq> []"
    by blast+
  from h1 h2 h3 h4 h5 h6 h7 c1(1) c1' c2 c3 c4 c5 show ?thesis
    unfolding list_all_iff by blast
qed

lemma insertRows_other:
  assumes "\<forall>da \<in> set das. applicationNumber da \<noteq> k"
  shows "fst (insertRows database das ([] :: 'e option list)) k = database k"
  using assms by (induction das arbitrary: database) (auto simp: insertRow_def)

lemma insertRows_stored:
  assumes "da \<in> set das"
  shows "\<exists>da' \<in> set das. applicationNumber da' = applicationNumber da \<and>
           fst (insertRows database das ([] :: 'e option list)) (applicationNumber da) =
             Some (row_of da')"
  using assms
proof (induction das arbitrary: database da)
  case Nil
  then show ?case by simp
next
  case (Cons d das)
  let ?db = "database(applicationNumber d \<mapsto> row_of d)"
  have step: "insertRows database (d # das) ([] :: 'e option list) =
      insertRows ?db das ([] :: 'e option list)"
    by (simp add: insertRow_def row_of_def)
  show ?case
  proof (cases "\<exists>da'' \<in> set das. applicationNumber da'' = applicationNumber da")
    case True
    then obtain da'' where m: "da'' \<in> set das" "applicationNumber da'' = applicationNumber da"
      by blast
    from Cons.IH [OF m(1), of ?db] obtain da' where p: "da' \<in> set das"
      "applicationNumber da' = applicationNumber da''"
      "fst (insertRows ?db das ([] :: 'e option list)) (applicationNumber da'') =
         Some (row_of da')"
      by blast
    from p(1) have "da' \<in> set (d # das)"
      by simp
    moreover from p(2) m(2) have "applicationNumber da' = applicationNumber da"
      by simp
    moreover from p(3) m(2)
    have "fst (insertRows database (d # das) ([] :: 'e option list)) (applicationNumber da) =
        Some (row_of da')"
      unfolding step by simp
    ultimately show ?thesis
      by blast
  next
    case False
    with Cons.prems have eq: "da = d"
      by auto
    from False have "\<forall>da' \<in> set das. applicationNumber da' \<noteq> applicationNumber da"
      by blast
    from insertRows_other [OF this, of ?db]
    have "fst (insertRows ?db das ([] :: 'e option list)) (applicationNumber da) =
        Some (row_of d)"
      by (simp add: eq)
    then show ?thesis
      unfolding step by (simp add: eq)
  qed
qed

text \<open>
  C6: the description of a record is never empty: when the rows gave no description, or an
  empty one, the record has the placeholder \<^verbatim>\<open>No Description Provided\<close>, and that is what
  \<^verbatim>\<open>insertRow\<close> stores in the third column of the row of the record.  A call of \<^verbatim>\<open>insertRow\<close> with
  a record of the result, the engine reporting no error, leaves under the reference number of
  the record a row whose third column is its description (in part\_000 when the table has no
  row under that number yet); every row that the loop of \<^verbatim>\<open>main\<close> adds has the description of a
  record of the result in its third column, not empty; and when the engine reports no error
  the table has such a row under the reference number of every record of the result.
\<close>

theorem description_never_empty:
  "description (make_application today addr vars) =
     (if var_description vars = [] then js ''No Description Provided'' else var_description vars) \<and>
   description (make_application_part000 today addr vars) =
     (if var_description vars = [] then js ''No Description Provided'' else var_description vars) \<and>
   js ''No Description Provided'' \<noteq> [] \<and>
   (\<forall>r \<in> set (heading_records (make_application today) (e, following)).
      description r =
        (case last_value (js ''Type of Work'') (heading_rows following) of
           None \<Rightarrow> js ''No Description Provided''
         | Some v \<Rightarrow> if v = [] then js ''No Description Provided'' else v)) \<and>
   (\<forall>r \<in> set (heading_records (make_application_part000 today) (e, following)).
      description r =
        (case last_value (js ''Type of Work'') (heading_rows following) of
           None \<Rightarrow> js ''No Description Provided''
         | Some v \<Rightarrow> if v = [] then js ''No Description Provided'' else v)) \<and>
   (\<forall>r \<in> set (fst (getResults today page)).
      description r \<noteq> [] \<and> row_of r ! 2 = description r) \<and>
   (\<forall>r \<in> set (fst (getResults_part000 today page)).
      description r \<noteq> [] \<and> row_of_part000 r ! 2 = description r) \<and>
   (\<forall>r \<in> set (fst (getResults today page)).
      \<exists>database' row.
        insertRow database r (None :: 'e option) = Inr (database', Saved) \<and>
        database' (applicationNumber r) = Some row \<and>
        row ! 2 = description r \<and> row ! 2 \<noteq> []) \<and>
   (\<forall>r \<in> set (fst (getResults_part000 today page)).
      database (applicationNumber r) = None \<longrightarrow>
        (\<exists>database' row.
           insertRow_part000 database r (None :: 'e option) = Inr (database', Inserted) \<and>
           database' (applicationNumber r) = Some row \<and>
           row ! 2 = description r \<and> row ! 2 \<noteq> [])) \<and>
   (fst (insertRows database (fst (getResults today page)) (engine_errors :: 'e option list)) k =
      Some stored \<longrightarrow>
        database k = Some stored \<or>
        (\<exists>r \<in> set (fst (getResults today page)).
           k = applicationNumber r \<and> stored ! 2 = description r \<and> stored ! 2 \<noteq> [])) \<and>
   (\<forall>r \<in> set (fst (getResults today page)).
      \<exists>row. fst (insertRows database (fst (getResults today page)) ([] :: 'e option list))
               (applicationNumber r) = Some row \<and>
            row ! 2 \<noteq> [] \<and>
            (\<exists>r' \<in> set (fst (getResults today page)).
               applicationNumber r' = applicationNumber r \<and> row ! 2 = description r'))"
proof -
  have a: "description (make_application today addr vars) =
     (if var_description vars = [] then js ''No Description Provided'' else var_description vars)"
    by (simp add: make_application_def)
  have b: "description (make_application_part000 today addr vars) =
     (if var_description vars = [] then js ''No Description Provided'' else var_description vars)"
    by (simp add: make_application_part000_def)
  have c: "\<forall>r \<in> set (heading_records (make_application today) (e, following)).
      description r =
        (case last_value (js ''Type of Work'') (heading_rows following) of
           None \<Rightarrow> js ''No Description Provided''
         | Some v \<Rightarrow> if v = [] then js ''No Description Provided'' else v)"
    by (simp add: heading_records_vars make_application_def scan_heading_vars split: option.splits)
  have d: "\<forall>r \<in> set (heading_records (make_application_part000 today) (e, following)).
      description r =
        (case last_value (js ''Type of Work'') (heading_rows following) of
           None \<Rightarrow> js ''No Description Provided''
         | Some v \<Rightarrow> if v = [] then js ''No Description Provided'' else v)"
    by (simp add: heading_records_vars make_application_part000_def scan_heading_vars
        split: option.splits)
  have e: "\<forall>r \<in> set (fst (getResults today page)).
      description r \<noteq> [] \<and> row_of r ! 2 = description r"
  proof
    fix r assume "r \<in> set (fst (getResults today page))"
    from getResults_emitted [OF this] obtain h :: "node \<times> node list" where
      "r = make_application today (normalize_address (text_content [fst h]))
             (fst (scan_heading (snd h) []))"
      by blast
    then show "description r \<noteq> [] \<and> row_of r ! 2 = description r"
      by (simp add: make_application_def placeholder_not_empty row_of_def)
  qed
  have f: "\<forall>r \<in> set (fst (getResults_part000 today page)).
      description r \<noteq> [] \<and> row_of_part000 r ! 2 = description r"
  proof
    fix r assume "r \<in> set (fst (getResults_part000 today page))"
    from getResults_part000_emitted [OF this] obtain h :: "node \<times> node list" where
      "r = make_application_part000 today (normalize_address (text_content [fst h]))
             (fst (scan_heading (snd h) []))"
      by blast
    then show "description r \<noteq> [] \<and> row_of_part000 r ! 2 = description r"
      by (simp add: make_application_part000_def placeholder_not_empty row_of_part000_def)
  qed
  have g: "\<forall>r \<in> set (fst (getResults today page)).
      \<exists>database' row.
        insertRow database r (None :: 'e option) = Inr (database', Saved) \<and>
        database' (applicationNumber r) = Some row \<and>
        row ! 2 = description r \<and> row ! 2 \<noteq> []"
  proof
    fix r assume "r \<in> set (fst (getResults today page))"
    with e have "description r \<noteq> []"
      by blast
    then show "\<exists>database' row.
        insertRow database r (None :: 'e option) = Inr (database', Saved) \<and>
        database' (applicationNumber r) = Some row \<and>
        row ! 2 = description r \<and> row ! 2 \<noteq> []"
      by (simp add: insertRow_def)
  qed
  have g': "\<forall>r \<in> set (fst (getResults_part000 today page)).
      database (applicationNumber r) = None \<longrightarrow>
        (\<exists>database' row.
           insertRow_part000 database r (None :: 'e option) = Inr (database', Inserted) \<and>
           database' (applicationNumber r) = Some row \<and>
           row ! 2 = description r \<and> row ! 2 \<noteq> [])"
  proof
    fix r assume "r \<in> set (fst (getResults_part000 today page))"
    with f have "description r \<noteq> []"
      by blast
    then show "database (applicationNumber r) = None \<longrightarrow>
        (\<exists>database' row.
           insertRow_part000 database r (None :: 'e option) = Inr (database', Inserted) \<and>
           database' (applicationNumber r) = Some row \<and>
           row ! 2 = description r \<and> row ! 2 \<noteq> [])"
      by (simp add: insertRow_part000_def)
  qed
  have h: "fst (insertRows database (fst (getResults today page)) engine_errors) k =
      Some stored \<longrightarrow>
        database k = Some stored \<or>
        (\<exists>r \<in> set (fst (getResults today page)).
           k = applicationNumber r \<and> stored ! 2 = description r \<and> stored ! 2 \<noteq> [])"
  proof
    assume "fst (insertRows database (fst (getResults today page)) engine_errors) k = Some stored"
    from insertRows_rows [OF this] e
    show "database k = Some stored \<or>
        (\<exists>r \<in> set (fst (getResults today page)).
           k = applicationNumber r \<and> stored ! 2 = description r \<and> stored ! 2 \<noteq> [])"
      by auto
  qed
  have i: "\<forall>r \<in> set (fst (getResults today page)).
      \<exists>row. fst (insertRows database (fst (getResults today page)) ([] :: 'e option list))
               (applicationNumber r) = Some row \<and>
            row ! 2 \<noteq> [] \<and>
            (\<exists>r' \<in> set (fst (getResults today page)).
               applicationNumber r' = applicationNumber r \<and> row ! 2 = description r')"
  proof
    fix r assume "r \<in> set (fst (getResults today page))"
    from insertRows_stored [OF this, of database]
    obtain r' where r': "r' \<in> set (fst (getResults today page))"
      "applicationNumber r' = applicationNumber r"
      "fst (insertRows database (fst (getResults today page)) ([] :: 'e option list))
         (applicationNumber r) = Some (row_of r')"
      by blast
    from e r'(1) have "row_of r' ! 2 \<noteq> []" "row_of r' ! 2 = description r'"
      by auto
    with r' show "\<exists>row. fst (insertRows database (fst (getResults today page)) ([] :: 'e option list))
               (applicationNumber r) = Some row \<and>
            row ! 2 \<noteq> [] \<and>
            (\<exists>r' \<in> set (fst (getResults today page)).
               applicationNumber r' = applicationNumber r \<and> row ! 2 = description r')"
      by blast
  qed
  from a b c d e f g g' h i placeholder_not_empty show ?thesis by (simp only: simp_thms)
qed

theorem description_never_empty_witness:
  "heading_records (make_application []) (fixture_heading (js ''12 Smith St''), fixture_number_only) \<noteq> [] \<and>
   heading_records (make_application_part000 []) (fixture_heading (js ''12 Smith St''), fixture_number_only) \<noteq> [] \<and>
   last_value (js ''Type of Work'') (heading_rows fixture_number_only) = None \<and>
   list_all (\<lambda>r. description r = js ''No Description Provided'')
     (heading_records (make_application [])
        (fixture_heading (js ''12 Smith St''), fixture_number_only)) \<and>
   list_all (\<lambda>r. description r = js ''No Description Provided'')
     (heading_records (make_application_part000 [])
        (fixture_heading (js ''12 Smith St''), fixture_number_only)) \<and>
   fst (getResults [] (fixture_heading (js ''12 Smith St'') # fixture_number_only)) =
     [\<lparr>applicationNumber = js ''2019/0045'', address = js ''12 Smith St'',
       description = js ''No Description Provided'',
       informationUrl = DevelopmentApplicationMainUrl, scrapeDate = [], receivedDate = []\<rparr>] \<and>
   list_all (\<lambda>r. description r \<noteq> [])
     (fst (getResults [] (fixture_heading (js ''12 Smith St'') # fixture_number_only))) \<and>
   fst (getResults_part000 [] (fixture_heading (js ''12 Smith St'') # fixture_number_only)) \<noteq> [] \<and>
   list_all (\<lambda>r. description r \<noteq> [])
     (fst (getResults_part000 [] (fixture_heading (js ''12 Smith St'') # fixture_number_only))) \<and>
   list_all (\<lambda>r. \<exists>database' row.
        insertRow Map.empty r (None :: unit option) = Inr (database', Saved) \<and>
        database' (applicationNumber r) = Some row \<and>
        row ! 2 = description r \<and> row ! 2 \<noteq> [])
     (fst (getResults [] (fixture_heading (js ''12 Smith St'') # fixture_number_only))) \<and>
   list_all (\<lambda>r. \<exists>database' row.
        insertRow_part000 Map.empty r (None :: unit option) = Inr (database', Inserted) \<and>
        database' (applicationNumber r) = Some row \<and>
        row ! 2 = description r \<and> row ! 2 \<noteq> [])
     (fst (getResults_part000 [] (fixture_heading (js ''12 Smith St'') # fixture_number_only))) \<and>
   fst (insertRows Map.empty
          (fst (getResults [] (fixture_heading (js ''12 Smith St'') # fixture_number_only)))
          ([] :: unit option list)) (js ''2019/0045'') =
     Some [js ''2019/0045'', js ''12 Smith St'', js ''No Description Provided'',
           DevelopmentApplicationMainUrl, [], []] \<and>
   [js ''2019/0045'', js ''12 Smith St'', js ''No Description Provided'',
    DevelopmentApplicationMainUrl, [], []] ! 2 = js ''No Description Provided'' \<and>
   (\<exists>r \<in> set (fst (getResults [] (fixture_heading (js ''12 Smith St'') # fixture_number_only))).
      js ''2019/0045'' = applicationNumber r \<and>
      [js ''2019/0045'', js ''12 Smith St'', js ''No Description Provided'',
       DevelopmentApplicationMainUrl, [], []] ! 2 = description r) \<and>
   list_all (\<lambda>r. \<exists>row.
        fst (insertRows Map.empty
               (fst (getResults [] (fixture_heading (js ''12 Smith St'') # fixture_number_only)))
               ([] :: unit option list)) (applicationNumber r) = Some row \<and>
        row ! 2 \<noteq> [])
     (fst (getResults [] (fixture_heading (js ''12 Smith St'') # fixture_number_only)))"
proof -
  let ?page = "fixture_heading (js ''12 Smith St'') # fixture_number_only"
  let ?stored = "[js ''2019/0045'', js ''12 Smith St'', js ''No Description Provided'',
    DevelopmentApplicationMainUrl, [], []]"
  note t = description_never_empty [where today = "[]" and e = "fixture_heading (js ''12 Smith St'')"
      and following = fixture_number_only and page = ?page
      and database = Map.empty and engine_errors = "[] :: unit option list"
      and k = "js ''2019/0045''" and stored = ?stored]
  have h1: "heading_records (make_application [])
      (fixture_heading (js ''12 Smith St''), fixture_number_only) \<noteq> []"
    "heading_records (make_application_part000 [])
      (fixture_heading (js ''12 Smith St''), fixture_number_only) \<noteq> []"
    by code_simp+
  have h2: "last_value (js ''Type of Work'') (heading_rows fixture_number_only) = None"
    by code_simp
  have h3: "fst (getResults [] ?page) =
     [\<lparr>applicationNumber = js ''2019/0045'', address = js ''12 Smith St'',
       description = js ''No Description Provided'',
       informationUrl = DevelopmentApplicationMainUrl, scrapeDate = [], receivedDate = []\<rparr>]"
    by code_simp
  have h4: "fst (getResults_part000 [] ?page) \<noteq> []"
    by code_simp
  have h5: "fst (insertRows Map.empty (fst (getResults [] ?page)) ([] :: unit option list))
      (js ''2019/0045'') = Some ?stored"
    by code_simp
  have h6: "?stored ! 2 = js ''No Description Provided''"
    by simp
  from t have c1: "\<forall>r \<in> set (heading_records (make_application [])
        (fixture_heading (js ''12 Smith St''), fixture_number_only)).
      description r =
        (case last_value (js ''Type of Work'') (heading_rows fixture_number_only) of
           None \<Rightarrow> js ''No Description Provided''
         | Some v \<Rightarrow> if v = [] then js ''No Description Provided'' else v)"
    by blast
  from t have c2: "\<forall>r \<in> set (heading_records (make_application_part000 [])
        (fixture_heading (js ''12 Smith St''), fixture_number_only)).
      description r =
        (case last_value (js ''Type of Work'') (heading_rows fixture_number_only) of
           None \<Rightarrow> js ''No Description Provided''
         | Some v \<Rightarrow> if v = [] then js ''No Description Provided'' else v)"
    by blast
  from t have c3: "\<forall>r \<in> set (fst (getResults [] ?page)). description r \<noteq> []"
    "\<forall>r \<in> set (fst (getResults_part000 [] ?page)). description r \<noteq> []"
    by blast+
  from c1 c2 have c4: "\<forall>r \<in> set (heading_records (make_application [])
        (fixture_heading (js ''12 Smith St''), fixture_number_only)).
      description r = js ''No Description Provided''"
    "\<forall>r \<in> set (heading_records (make_application_part000 [])
        (fixture_heading (js ''12 Smith St''), fixture_number_only)).
      description r = js ''No Description Provided''"
    unfolding h2 by simp_all
  from t have c5: "\<forall>r \<in> set (fst (getResults [] ?page)).
      \<exists>database' row.
        insertRow Map.empty r (None :: unit option) = Inr (database', Saved) \<and>
        database' (applicationNumber r) = Some row \<and>
        row ! 2 = description r \<and> row ! 2 \<noteq> []"
    by blast
  from t have "\<forall>r \<in> set (fst (getResults_part000 [] ?page)).
      Map.empty (applicationNumber r) = None \<longrightarrow>
        (\<exists>database' row.
           insertRow_part000 Map.empty r (None :: unit option) = Inr (database', Inserted) \<and>
           database' (applicationNumber r) = Some row \<and>
           row ! 2 = description r \<and> row ! 2 \<noteq> [])"
    by blast
  then have c6: "\<forall>r \<in> set (fst (getResults_part000 [] ?page)).
      \<exists>database' row.
           insertRow_part000 Map.empty r (None :: unit option) = Inr (database', Inserted) \<and>
           database' (applicationNumber r) = Some row \<and>
           row ! 2 = description r \<and> row ! 2 \<noteq> []"
    by simp
  from t have "fst (insertRows Map.empty (fst (getResults [] ?page)) ([] :: unit option list))
        (js ''2019/0045'') = Some ?stored \<longrightarrow>
      Map.empty (js ''2019/0045'') = Some ?stored \<or>
      (\<exists>r \<in> set (fst (getResults [] ?page)).
         js ''2019/0045'' = applicationNumber r \<and> ?stored ! 2 = description r \<and> ?stored ! 2 \<noteq> [])"
    by blast
  with h5 have c7: "\<exists>r \<in> set (fst (getResults [] ?page)).
      js ''2019/0045'' = applicationNumber r \<and> ?stored ! 2 = description r"
    by auto
  from t have "\<forall>r \<in> set (fst (getResults [] ?page)).
      \<exists>row. fst (insertRows Map.empty (fst (getResults [] ?page)) ([] :: unit option list))
               (applicationNumber r) = Some row \<and>
            row ! 2 \<noteq> [] \<and>
            (\<exists>r' \<in> set (fst (getResults [] ?page)).
               applicationNumber r' = applicationNumber r \<and> row ! 2 = description r')"
    by blast
  then have c8: "\<forall>r \<in> set (fst (getResults [] ?page)).
      \<exists>row. fst (insertRows Map.empty (fst (getResults [] ?page)) ([] :: unit option list))
               (applicationNumber r) = Some row \<and> row ! 2 \<noteq> []"
    by blast
  from h1 h2 h3 h4 h5 h6 c3 c4 c5 c6 c7 c8 show ?thesis
    unfolding list_all_iff by blast
qed

lemma related_map_of:
  assumes "list_all2 (\<lambda>kv kv'. fst kv' = fst kv \<and> (fst kv = d \<or> snd kv' = snd kv)) xs ys"
    and "key \<noteq> d"
  shows "map_of ys key = map_of xs key"
  using assms by (induction rule: list_all2_induct) auto

lemma related_last_value:
  assumes "rows_differ_only_in_date rows rows'" and "key \<noteq> js ''Date Lodged''"
  shows "last_value key rows' = last_value key rows"
proof -
  from assms(1) have "list_all2 (\<lambda>kv kv'. fst kv' = fst kv \<and>
      (fst kv = js ''Date Lodged'' \<or> snd kv' = snd kv)) (rev rows) (rev rows')"
    by (simp add: rows_differ_only_in_date_def list_all2_rev)
  from related_map_of [OF this assms(2)] show ?thesis
    by (simp add: last_value_def)
qed

lemma related_found:
  assumes "list_all2 (\<lambda>kv kv'. fst kv' = fst kv \<and> (fst kv = d \<or> snd kv' = snd kv)) xs ys"
    and "key \<noteq> d"
  shows "map (\<lambda>kv. Found (snd kv)) (filter (\<lambda>kv. fst kv = key) ys) =
         map (\<lambda>kv. Found (snd kv)) (filter (\<lambda>kv. fst kv = key) xs)"
  using assms by (induction rule: list_all2_induct) auto

lemma receivedDate_update:
  "(make_application today addr vars)\<lparr>receivedDate := []\<rparr> =
     make_application today addr (vars\<lparr>var_receivedDate := Invalid\<rparr>)"
  by (simp add: make_application_def receivedDate_text_def isValid_def)

lemma malformed_date_heading:
  assumes rel: "rows_differ_only_in_date (heading_rows following) (heading_rows following')"
    and bad: "\<forall>v. last_value (js ''Date Lodged'') (heading_rows following') = Some v \<longrightarrow>
                moment_strict v = Invalid"
  shows "heading_records (make_application today) (e, following') =
           map (\<lambda>r. r\<lparr>receivedDate := []\<rparr>) (heading_records (make_application today) (e, following))"
    and "heading_console (e, following') = heading_console (e, following)"
proof -
  let ?v = "fst (scan_heading following [])" and ?v' = "fst (scan_heading following' [])"
  have n: "var_applicationNumber ?v' = var_applicationNumber ?v"
    using related_last_value [OF rel, of "js ''Application No.''"]
    by (simp add: scan_heading_vars key_literals)
  have d: "var_description ?v' = var_description ?v"
    using related_last_value [OF rel, of "js ''Type of Work''"]
    by (simp add: scan_heading_vars key_literals)
  have r: "var_receivedDate ?v' = Invalid"
    using bad by (simp add: scan_heading_vars split: option.splits)
  from n d r have v': "?v' = ?v\<lparr>var_receivedDate := Invalid\<rparr>"
    by simp
  show "heading_records (make_application today) (e, following') =
           map (\<lambda>r. r\<lparr>receivedDate := []\<rparr>) (heading_records (make_application today) (e, following))"
    unfolding heading_records_vars v' by (simp add: receivedDate_update)
  have "snd (scan_heading following' []) = snd (scan_heading following [])"
    using related_found [of "js ''Date Lodged''" "heading_rows following" "heading_rows following'"
        "js ''Application No.''"] rel
    by (simp add: scan_heading_console rows_differ_only_in_date_def key_literals)
  then show "heading_console (e, following') = heading_console (e, following)"
    unfolding heading_console_vars v' by simp
qed

text \<open>
  C8: a \<^verbatim>\<open>Date Lodged\<close> value that does not parse sets the date to the invalid moment and
  nothing else; the record of the heading is pushed all the same, with the empty string as
  received date and every other field as with any other date in that row, the console is the
  same, and the headings before and after contribute their records as ever.
\<close>

theorem malformed_date:
  "(moment_strict val = Invalid \<longrightarrow>
      assign_row (js ''Date Lodged'') val (vars, console) =
        (vars\<lparr>var_receivedDate := Invalid\<rparr>, console) \<and>
      make_application today addr (vars\<lparr>var_receivedDate := Invalid\<rparr>) =
        (make_application today addr vars)\<lparr>receivedDate := []\<rparr>) \<and>
   (rows_differ_only_in_date (heading_rows following) (heading_rows following') \<and>
    (\<forall>v. last_value (js ''Date Lodged'') (heading_rows following') = Some v \<longrightarrow>
           moment_strict v = Invalid) \<longrightarrow>
      heading_records (make_application today) (e, following') =
        map (\<lambda>r. r\<lparr>receivedDate := []\<rparr>) (heading_records (make_application today) (e, following)) \<and>
      heading_console (e, following') = heading_console (e, following)) \<and>
   (select_all (is_tag_class ''h4'' ''non_table_headers'') page = before @ (e, following') # after \<longrightarrow>
      fst (getResults today page) =
        concat (map (heading_records (make_application today)) before) @
        heading_records (make_application today) (e, following') @
        concat (map (heading_records (make_application today)) after))"
proof -
  have a: "moment_strict val = Invalid \<longrightarrow>
      assign_row (js ''Date Lodged'') val (vars, console) =
        (vars\<lparr>var_receivedDate := Invalid\<rparr>, console) \<and>
      make_application today addr (vars\<lparr>var_receivedDate := Invalid\<rparr>) =
        (make_application today addr vars)\<lparr>receivedDate := []\<rparr>"
    by (simp add: assign_row_def key_literals receivedDate_update)
  have b: "rows_differ_only_in_date (heading_rows following) (heading_rows following') \<and>
    (\<forall>v. last_value (js ''Date Lodged'') (heading_rows following') = Some v \<longrightarrow>
           moment_strict v = Invalid) \<longrightarrow>
      heading_records (make_application today) (e, following') =
        map (\<lambda>r. r\<lparr>receivedDate := []\<rparr>) (heading_records (make_application today) (e, following)) \<and>
      heading_console (e, following') = heading_console (e, following)"
    using malformed_date_heading(1) [of following following' today e]
      malformed_date_heading(2) [of following following' e] by blast
  have c: "select_all (is_tag_class ''h4'' ''non_table_headers'') page = before @ (e, following') # after \<longrightarrow>
      fst (getResults today page) =
        concat (map (heading_records (make_application today)) before) @
        heading_records (make_application today) (e, following') @
        concat (map (heading_records (make_application today)) after)"
    by (simp add: getResults_closed)
  from a b c show ?thesis by (simp only: simp_thms)
qed

theorem malformed_date_witness:
  "moment_strict (js ''not-a-date'') = Invalid \<and>
   rows_differ_only_in_date
     (heading_rows (fixture_following (js ''2019/0045'') (js ''3/04/2019'') @ fixture_second_block))
     (heading_rows (fixture_following (js ''2019/0045'') (js ''not-a-date'') @ fixture_second_block)) \<and>
   last_value (js ''Date Lodged'')
     (heading_rows (fixture_following (js ''2019/0045'') (js ''not-a-date'') @ fixture_second_block)) =
     Some (js ''not-a-date'') \<and>
   heading_records (make_application [])
     (fixture_heading (js ''12 Smith St, Loxton''),
      fixture_following (js ''2019/0045'') (js ''not-a-date'') @ fixture_second_block) =
   map (\<lambda>r. r\<lparr>receivedDate := []\<rparr>)
     (heading_records (make_application [])
       (fixture_heading (js ''12 Smith St, Loxton''),
        fixture_following (js ''2019/0045'') (js ''3/04/2019'') @ fixture_second_block)) \<and>
   select_all (is_tag_class ''h4'' ''non_table_headers'') (fixture_page_two (js ''not-a-date'')) =
     [] @ (fixture_heading (js ''12 Smith St, Loxton''),
           fixture_following (js ''2019/0045'') (js ''not-a-date'') @ fixture_second_block) #
     [(fixture_heading (js ''7 Jones Rd, Waikerie''),
       fixture_following (js ''2019/0046'') (js ''15/04/2019''))] \<and>
   fst (getResults [] (fixture_page_two (js ''not-a-date''))) =
     [\<lparr>applicationNumber = js ''2019/0045'', address = js ''12 Smith St, Loxton'',
       description = js ''Shed'', informationUrl = DevelopmentApplicationMainUrl,
       scrapeDate = [], receivedDate = []\<rparr>,
      \<lparr>applicationNumber = js ''2019/0046'', address = js ''7 Jones Rd, Waikerie'',
       description = js ''Shed'', informationUrl = DevelopmentApplicationMainUrl,
       scrapeDate = [], receivedDate = js ''2019-04-15''\<rparr>]"
proof -
  let ?bad = "fixture_following (js ''2019/0045'') (js ''not-a-date'') @ fixture_second_block"
  let ?good = "fixture_following (js ''2019/0045'') (js ''3/04/2019'') @ fixture_second_block"
  let ?h = "fixture_heading (js ''12 Smith St, Loxton'')"
  let ?after = "[(fixture_heading (js ''7 Jones Rd, Waikerie''),
       fixture_following (js ''2019/0046'') (js ''15/04/2019''))]"
  note t = malformed_date [where val = "js ''not-a-date''" and following = ?good
      and following' = ?bad and today = "[]" and e = ?h
      and page = "fixture_page_two (js ''not-a-date'')" and before = "[]" and after = ?after]
  have h1: "moment_strict (js ''not-a-date'') = Invalid"
    by code_simp
  have h2: "rows_differ_only_in_date (heading_rows ?good) (heading_rows ?bad)"
    by code_simp
  have h3: "last_value (js ''Date Lodged'') (heading_rows ?bad) = Some (js ''not-a-date'')"
    by code_simp
  have h4: "select_all (is_tag_class ''h4'' ''non_table_headers'') (fixture_page_two (js ''not-a-date'')) =
     [] @ (?h, ?bad) # ?after"
    by code_simp
  from h1 h3 have h5: "\<forall>v. last_value (js ''Date Lodged'') (heading_rows ?bad) = Some v \<longrightarrow>
      moment_strict v = Invalid"
    by simp
  from t h2 h5 have c1: "heading_records (make_application []) (?h, ?bad) =
      map (\<lambda>r. r\<lparr>receivedDate := []\<rparr>) (heading_records (make_application []) (?h, ?good))"
    by blast
  from t h4 have c2: "fst (getResults [] (fixture_page_two (js ''not-a-date''))) =
        concat (map (heading_records (make_application [])) []) @
        heading_records (make_application []) (?h, ?bad) @
        concat (map (heading_records (make_application [])) ?after)"
    by blast
  have e1: "concat (map (heading_records (make_application [])) []) @
        heading_records (make_application []) (?h, ?bad) @
        concat (map (heading_records (make_application [])) ?after) =
     [\<lparr>applicationNumber = js ''2019/0045'', address = js ''12 Smith St, Loxton'',
       description = js ''Shed'', informationUrl = DevelopmentApplicationMainUrl,
       scrapeDate = [], receivedDate = []\<rparr>,
      \<lparr>applicationNumber = js ''2019/0046'', address = js ''7 Jones Rd, Waikerie'',
       description = js ''Shed'', informationUrl = DevelopmentApplicationMainUrl,
       scrapeDate = [], receivedDate = js ''2019-04-15''\<rparr>]"
    by code_simp
  from c2 e1 have c3: "fst (getResults [] (fixture_page_two (js ''not-a-date''))) =
     [\<lparr>applicationNumber = js ''2019/0045'', address = js ''12 Smith St, Loxton'',
       description = js ''Shed'', informationUrl = DevelopmentApplicationMainUrl,
       scrapeDate = [], receivedDate = []\<rparr>,
      \<lparr>applicationNumber = js ''2019/0046'', address = js ''7 Jones Rd, Waikerie'',
       description = js ''Shed'', informationUrl = DevelopmentApplicationMainUrl,
       scrapeDate = [], receivedDate = js ''2019-04-15''\<rparr>]"
    by (rule trans)
  from h1 h2 h3 h4 c1 c3 show ?thesis by blast
qed

section \<open>The claim about the table\<close>

text \<open>
  C7: in the variant that ignores conflicts (part\_000), a second record with the reference
  number of the first leaves the table as the first insert left it and is reported as skipped
  (and the first, when its key was new, is in the table as it was given); in the variant that
  replaces on conflict (scraper.ts), the row holds the values of the second record afterwards.
\<close>

theorem upsert_conflict_policy:
  fixes database :: database
    and first second :: development_application_part000
    and first' second' :: development_application
  shows
  "(applicationNumber second = applicationNumber first \<longrightarrow>
     (\<exists>database1 outcome.
        insertRow_part000 database first (None :: 'e option) = Inr (database1, outcome) \<and>
        (database (applicationNumber first) = None \<longrightarrow>
           outcome = Inserted \<and>
           database1 = database(applicationNumber first \<mapsto> row_of_part000 first)) \<and>
        insertRow_part000 database1 second (None :: 'e option) = Inr (database1, Skipped))) \<and>
   (applicationNumber second' = applicationNumber first' \<longrightarrow>
     (\<exists>database1.
        insertRow database first' (None :: 'e option) = Inr (database1, Saved) \<and>
        insertRow database1 second' (None :: 'e option) =
          Inr (database(applicationNumber first' \<mapsto> row_of second'), Saved)))"
  by (auto simp: insertRow_def insertRow_part000_def row_of_def row_of_part000_def
      split: option.splits)

theorem upsert_conflict_policy_witness:
  "applicationNumber (fixture_application_part000 (js ''1 New Rd'')) =
     applicationNumber (fixture_application_part000 (js ''12 Smith St, Loxton'')) \<and>
   applicationNumber (fixture_application (js ''1 New Rd'')) =
     applicationNumber (fixture_application (js ''12 Smith St, Loxton'')) \<and>
   (\<exists>database1.
      insertRow_part000 Map.empty (fixture_application_part000 (js ''12 Smith St, Loxton''))
        (None :: unit option) = Inr (database1, Inserted) \<and>
      insertRow_part000 database1 (fixture_application_part000 (js ''1 New Rd''))
        (None :: unit option) = Inr (database1, Skipped) \<and>
      database1 (js ''2019/0045'') =
        Some (row_of_part000 (fixture_application_part000 (js ''12 Smith St, Loxton'')))) \<and>
   (\<exists>database1 database2.
      insertRow Map.empty (fixture_application (js ''12 Smith St, Loxton''))
        (None :: unit option) = Inr (database1, Saved) \<and>
      insertRow database1 (fixture_application (js ''1 New Rd''))
        (None :: unit option) = Inr (database2, Saved) \<and>
      database2 (js ''2019/0045'') = Some (row_of (fixture_application (js ''1 New Rd''))))"
proof -
  have h1: "applicationNumber (fixture_application_part000 (js ''1 New Rd'')) =
     applicationNumber (fixture_application_part000 (js ''12 Smith St, Loxton''))"
    by (simp add: fixture_application_part000_def)
  have h2: "applicationNumber (fixture_application (js ''1 New Rd'')) =
     applicationNumber (fixture_application (js ''12 Smith St, Loxton''))"
    by (simp add: fixture_application_def)
  have k1: "applicationNumber (fixture_application_part000 (js ''12 Smith St, Loxton'')) = js ''2019/0045''"
    by (simp add: fixture_application_part000_def)
  have k2: "applicationNumber (fixture_application (js ''12 Smith St, Loxton'')) = js ''2019/0045''"
    by (simp add: fixture_application_def)
  note t = upsert_conflict_policy [where ?'e = unit and database = Map.empty
      and second = "fixture_application_part000 (js ''1 New Rd'')"
      and first = "fixture_application_part000 (js ''12 Smith St, Loxton'')"
      and second' = "fixture_application (js ''1 New Rd'')"
      and first' = "fixture_application (js ''12 Smith St, Loxton'')"]
  from t h1 k1 have a: "\<exists>database1.
      insertRow_part000 Map.empty (fixture_application_part000 (js ''12 Smith St, Loxton''))
        (None :: unit option) = Inr (database1, Inserted) \<and>
      insertRow_part000 database1 (fixture_application_part000 (js ''1 New Rd''))
        (None :: unit option) = Inr (database1, Skipped) \<and>
      database1 (js ''2019/0045'') =
        Some (row_of_part000 (fixture_application_part000 (js ''12 Smith St, Loxton'')))"
    by auto
  from t h2 k2 have b: "\<exists>database1 database2.
      insertRow Map.empty (fixture_application (js ''12 Smith St, Loxton''))
        (None :: unit option) = Inr (database1, Saved) \<and>
      insertRow database1 (fixture_application (js ''1 New Rd''))
        (None :: unit option) = Inr (database2, Saved) \<and>
      database2 (js ''2019/0045'') = Some (row_of (fixture_application (js ''1 New Rd'')))"
    by auto
  from h1 h2 a b show ?thesis by blast
qed

section \<open>The claim about dates\<close>

lemma digit_value_less: "is_digit c \<Longrightarrow> digit_value c < 10"
  unfolding is_digit_def digit_value_def word_le_nat_alt by simp linarith

lemma digit_char_value: "is_digit c \<Longrightarrow> digit_char (digit_value c) = c"
  by (simp add: is_digit_def digit_value_def digit_char_def word_le_nat_alt)

lemma slash_not_digit: "\<not> is_digit 0x2F"
  by (simp add: is_digit_def)

lemma number_of_snoc: "number_of (ds @ [c]) = 10 * number_of ds + digit_value c"
  by (simp add: number_of_def)

lemma decimal_small: "n < 10 \<Longrightarrow> decimal n = [digit_char n]"
  by (simp add: decimal.simps)

lemma decimal_step: "0 < n \<Longrightarrow> d < 10 \<Longrightarrow> decimal (10 * n + d) = decimal n @ [digit_char d]"
  by (subst decimal.simps) simp

lemma zeroFill_digit: "d < 10 \<Longrightarrow> zeroFill d (Suc 0) = [digit_char d]"
  by (simp add: zeroFill_def decimal_small)

lemma digit_char_0: "digit_char 0 = 0x30"
  by (simp add: digit_char_def)

lemma zeroFill_snoc:
  assumes "d < 10" and "1 \<le> k"
  shows "zeroFill (10 * n + d) (Suc k) = zeroFill n k @ [digit_char d]"
proof (cases "n = 0")
  case True
  have "replicate (k - 1) (0x30 :: 16 word) @ [0x30] = replicate k 0x30"
    using assms(2) by (cases k) (simp_all add: replicate_append_same)
  then show ?thesis
    using True assms by (simp add: zeroFill_def decimal_small digit_char_def)
next
  case False
  then show ?thesis
    using assms by (simp add: zeroFill_def decimal_step Suc_diff_le)
qed

lemma zeroFill_number_of:
  "ds \<noteq> [] \<Longrightarrow> list_all is_digit ds \<Longrightarrow> zeroFill (number_of ds) (length ds) = ds"
proof (induction ds rule: rev_induct)
  case Nil
  then show ?case by simp
next
  case (snoc c ds)
  then have c: "is_digit c" and ds: "list_all is_digit ds"
    by simp_all
  show ?case
  proof (cases "ds = []")
    case True
    then show ?thesis
      using c by (simp add: number_of_def zeroFill_digit digit_value_less digit_char_value)
  next
    case False
    then have "1 \<le> length ds"
      by (cases ds) simp_all
    then have "zeroFill (10 * number_of ds + digit_value c) (Suc (length ds)) =
               zeroFill (number_of ds) (length ds) @ [digit_char (digit_value c)]"
      using digit_value_less [OF c] by (rule zeroFill_snoc [rotated])
    then show ?thesis
      using snoc.IH [OF False ds] c by (simp add: number_of_snoc digit_char_value)
  qed
qed

lemma zeroFill_single:
  assumes "is_digit a"
  shows "zeroFill (number_of [a]) 2 = [0x30, a]"
proof -
  have "zeroFill (10 * 0 + digit_value a) (Suc 1) = zeroFill 0 1 @ [digit_char (digit_value a)]"
    using digit_value_less [OF assms] by (intro zeroFill_snoc) simp_all
  then show ?thesis
    using assms
    by (simp add: number_of_def digit_char_value zeroFill_digit digit_char_0 numeral_2_eq_2)
qed

lemma match1to2_Some:
  assumes "match1to2 v = Some (dd, r)"
  shows "v = dd @ r \<and> list_all is_digit dd \<and> (length dd = 1 \<or> length dd = 2)"
  using assms by (cases v rule: match1to2.cases) (auto split: if_splits)

lemma match_slash_Some: "match_slash r = Some r' \<Longrightarrow> r = 0x2F # r'"
  by (cases r) (auto split: if_splits)

lemma match_digits_Some:
  assumes "match_digits n r = Some (ds, r')"
  shows "r = ds @ r' \<and> list_all is_digit ds \<and> length ds = n"
  using assms by (auto simp: match_digits_def split: if_splits)

lemma match1to2_parts:
  assumes "list_all is_digit dd" and "length dd = 1 \<or> length dd = 2"
  shows "match1to2 (dd @ 0x2F # r) = Some (dd, 0x2F # r)"
proof -
  from assms(2) consider a where "dd = [a]" | a b where "dd = [a, b]"
    by (cases dd; cases "tl dd"; cases "tl (tl dd)") auto
  then show ?thesis
    using assms(1) by cases (simp_all add: slash_not_digit)
qed

lemma match_digits_parts:
  assumes "list_all is_digit ds" and "length ds = n"
  shows "match_digits n (ds @ r) = Some (ds, r)"
  using assms by (simp add: match_digits_def)

lemma moment_strict_parts:
  assumes "list_all is_digit dd" and "length dd = 1 \<or> length dd = 2"
    and "list_all is_digit mm" and "length mm = 2"
    and "list_all is_digit yyyy" and "length yyyy = 4"
  shows "moment_strict (dd @ [0x2F] @ mm @ [0x2F] @ yyyy) =
     (if 1 \<le> number_of mm \<and> number_of mm \<le> 12 \<and> 1 \<le> number_of dd \<and>
         number_of dd \<le> daysInMonth (number_of yyyy) (number_of mm)
      then Valid (number_of yyyy) (number_of mm) (number_of dd)
      else Invalid)"
proof -
  have 1: "match1to2 (dd @ 0x2F # mm @ 0x2F # yyyy) = Some (dd, 0x2F # mm @ 0x2F # yyyy)"
    using assms(1,2) by (rule match1to2_parts)
  have 2: "match_digits 2 (mm @ 0x2F # yyyy) = Some (mm, 0x2F # yyyy)"
    using assms(3,4) by (rule match_digits_parts)
  have 3: "match_digits 4 (yyyy @ []) = Some (yyyy, [])"
    using assms(5,6) by (rule match_digits_parts)
  show ?thesis
    using 1 2 3 by (simp add: moment_strict_def)
qed

lemma moment_strict_shape:
  assumes "moment_strict v \<noteq> Invalid"
  shows "\<exists>dd mm yyyy. v = dd @ [0x2F] @ mm @ [0x2F] @ yyyy \<and>
           list_all is_digit dd \<and> (length dd = 1 \<or> length dd = 2) \<and>
           list_all is_digit mm \<and> length mm = 2 \<and>
           list_all is_digit yyyy \<and> length yyyy = 4"
proof -
  from assms obtain dd r1 where m1: "match1to2 v = Some (dd, r1)"
    by (auto simp: moment_strict_def split: option.splits)
  with assms obtain r2 where m2: "match_slash r1 = Some r2"
    by (auto simp: moment_strict_def split: option.splits)
  with assms m1 obtain mm r3 where m3: "match_digits 2 r2 = Some (mm, r3)"
    by (auto simp: moment_strict_def split: option.splits)
  with assms m1 m2 obtain r4 where m4: "match_slash r3 = Some r4"
    by (auto simp: moment_strict_def split: option.splits)
  with assms m1 m2 m3 obtain yyyy r5 where m5: "match_digits 4 r4 = Some (yyyy, r5)"
    by (auto simp: moment_strict_def split: option.splits)
  with assms m1 m2 m3 m4 have r5: "r5 = []"
    by (auto simp: moment_strict_def split: if_splits)
  from match1to2_Some [OF m1] match_slash_Some [OF m2] match_digits_Some [OF m3]
    match_slash_Some [OF m4] match_digits_Some [OF m5] r5
  show ?thesis by auto
qed

lemma split_parts:
  assumes "length dd = 1 \<or> length dd = 2" and "length mm = 2" and "length yyyy = 4"
  shows "split_D_MM_YYYY (dd @ [0x2F] @ mm @ [0x2F] @ yyyy) = Some (dd, mm, yyyy)"
  using assms by (auto simp: split_D_MM_YYYY_def Let_def nth_append)

lemma split_Some:
  assumes "split_D_MM_YYYY v = Some (dd, mm, yyyy)"
  shows "v = dd @ [0x2F] @ mm @ [0x2F] @ yyyy \<and> (length dd = 1 \<or> length dd = 2) \<and>
         length mm = 2 \<and> length yyyy = 4"
proof -
  let ?k = "length v - 8"
  from assms have len: "length v = 9 \<or> length v = 10"
    and s1: "v ! ?k = 0x2F" and s2: "v ! (?k + 3) = 0x2F"
    and dd: "dd = take ?k v" and mm: "mm = take 2 (drop (?k + 1) v)"
    and yyyy: "yyyy = drop (?k + 4) v"
    by (auto simp: split_D_MM_YYYY_def Let_def split: if_splits)
  from len have k: "?k < length v" "?k + 3 < length v" by auto
  have a: "v = take ?k v @ v ! ?k # drop (Suc ?k) v"
    using k(1) by (rule id_take_nth_drop)
  have "take 2 (drop (Suc ?k) v) @ drop 2 (drop (Suc ?k) v) = drop (Suc ?k) v"
    by (rule append_take_drop_id)
  moreover have "drop 2 (drop (Suc ?k) v) = drop (?k + 3) v"
  proof -
    have "2 + Suc ?k = ?k + 3" by simp
    then show ?thesis by (simp only: drop_drop)
  qed
  moreover have "drop (?k + 3) v = v ! (?k + 3) # drop (Suc (?k + 3)) v"
    using k(2) by (rule Cons_nth_drop_Suc [symmetric])
  moreover have "Suc (?k + 3) = ?k + 4"
    by simp
  ultimately have b: "drop (Suc ?k) v = take 2 (drop (?k + 1) v) @ v ! (?k + 3) # drop (?k + 4) v"
    by (metis Suc_eq_plus1)
  note a
  also note b
  finally have "v = take ?k v @ v ! ?k # take 2 (drop (?k + 1) v) @ v ! (?k + 3) # drop (?k + 4) v" .
  then have "v = dd @ [0x2F] @ mm @ [0x2F] @ yyyy"
    using s1 s2 dd mm yyyy by simp
  moreover have "(length dd = 1 \<or> length dd = 2) \<and> length mm = 2 \<and> length yyyy = 4"
    using len dd mm yyyy by auto
  ultimately show ?thesis by blast
qed

lemma moment_strict_closed:
  "moment_strict v =
     (case split_D_MM_YYYY v of
        None \<Rightarrow> Invalid
      | Some (dd, mm, yyyy) \<Rightarrow>
          if denotes_calendar_date v
          then Valid (number_of yyyy) (number_of mm) (number_of dd)
          else Invalid)"
proof (cases "split_D_MM_YYYY v")
  case None
  have "moment_strict v = Invalid"
  proof (rule ccontr)
    assume "moment_strict v \<noteq> Invalid"
    from moment_strict_shape [OF this] obtain dd mm yyyy where
      "v = dd @ [0x2F] @ mm @ [0x2F] @ yyyy" "length dd = 1 \<or> length dd = 2"
      "length mm = 2" "length yyyy = 4"
      by blast
    with split_parts [of dd mm yyyy] None show False by simp
  qed
  with None show ?thesis by simp
next
  case (Some t)
  obtain dd mm yyyy where t: "t = (dd, mm, yyyy)" by (cases t) auto
  from Some t have sp: "split_D_MM_YYYY v = Some (dd, mm, yyyy)" by simp
  note parts = split_Some [OF sp]
  show ?thesis
  proof (cases "list_all is_digit dd \<and> list_all is_digit mm \<and> list_all is_digit yyyy")
    case True
    with parts have "moment_strict v =
     (if 1 \<le> number_of mm \<and> number_of mm \<le> 12 \<and> 1 \<le> number_of dd \<and>
         number_of dd \<le> daysInMonth (number_of yyyy) (number_of mm)
      then Valid (number_of yyyy) (number_of mm) (number_of dd)
      else Invalid)"
      using moment_strict_parts [of dd mm yyyy] by metis
    with True sp show ?thesis
      by (simp add: denotes_calendar_date_def)
  next
    case False
    have "moment_strict v = Invalid"
    proof (rule ccontr)
      assume "moment_strict v \<noteq> Invalid"
      from moment_strict_shape [OF this] obtain dd' mm' yyyy' where
        p: "v = dd' @ [0x2F] @ mm' @ [0x2F] @ yyyy'" "length dd' = 1 \<or> length dd' = 2"
        "length mm' = 2" "length yyyy' = 4"
        and d: "list_all is_digit dd'" "list_all is_digit mm'" "list_all is_digit yyyy'"
        by blast
      from split_parts [OF p(2,3,4)] p(1) sp have "dd' = dd" "mm' = mm" "yyyy' = yyyy"
        by simp_all
      with d False show False by simp
    qed
    moreover from False sp have "\<not> denotes_calendar_date v"
      by (auto simp: denotes_calendar_date_def)
    ultimately show ?thesis
      using sp by simp
  qed
qed

lemma receivedDate_text_denotes:
  assumes "denotes_calendar_date v"
  shows "receivedDate_text (moment_strict v) = iso_of_D_MM_YYYY v"
proof -
  from assms obtain dd mm yyyy where sp: "split_D_MM_YYYY v = Some (dd, mm, yyyy)"
    by (auto simp: denotes_calendar_date_def split: option.splits)
  with assms have d: "list_all is_digit dd" "list_all is_digit mm" "list_all is_digit yyyy"
    by (simp_all add: denotes_calendar_date_def)
  from split_Some [OF sp] have l: "length dd = 1 \<or> length dd = 2" "length mm = 2" "length yyyy = 4"
    by simp_all
  have ne: "yyyy \<noteq> []" "mm \<noteq> []" "dd \<noteq> []"
    using l by auto
  have y: "zeroFill (number_of yyyy) 4 = yyyy"
    using zeroFill_number_of [OF ne(1) d(3)] l(3) by simp
  have m: "zeroFill (number_of mm) 2 = mm"
    using zeroFill_number_of [OF ne(2) d(2)] l(2) by simp
  have dd: "zeroFill (number_of dd) 2 = (if length dd = 1 then 0x30 # dd else dd)"
  proof (cases "length dd = 1")
    case True
    then obtain a where "dd = [a]" by (cases dd) auto
    with d(1) show ?thesis using zeroFill_single [of a] by simp
  next
    case False
    with l(1) have "length dd = 2" by simp
    then show ?thesis
      using zeroFill_number_of [OF ne(3) d(1)] False by simp
  qed
  have "moment_strict v = Valid (number_of yyyy) (number_of mm) (number_of dd)"
    using assms sp by (simp add: moment_strict_closed)
  then show ?thesis
    using sp y m dd by (simp add: receivedDate_text_def isValid_def iso_of_D_MM_YYYY_def)
qed

text \<open>
  C3 as the spec states it: every string of the shape \<^verbatim>\<open>D/MM/YYYY\<close> or \<^verbatim>\<open>DD/MM/YYYY\<close> parses.
  \<^verbatim>\<open>31/02/2019\<close> has the shape and does not parse: there is no 31st of February.
\<close>

theorem shape_without_date_is_invalid:
  "matches_D_MM_YYYY (js ''31/02/2019'') \<and> moment_strict (js ''31/02/2019'') = Invalid \<and>
   receivedDate_text (moment_strict (js ''31/02/2019'')) = []"
  by code_simp

text \<open>
  C3, amended: a string parses if and only if it has the shape \<^verbatim>\<open>D/MM/YYYY\<close> or
  \<^verbatim>\<open>DD/MM/YYYY\<close> (one or two digits for the day, no other laxity) and its numbers are a date
  of the calendar (month 1 to 12, day 1 to the length of that month in that year).  Then the
  moment is valid, holds these numbers, and is rendered as the same year, month and day in the
  form \<^verbatim>\<open>YYYY-MM-DD\<close>.  Every other string gives the invalid moment and the empty string as
  received date.  The parser is a total function: there is no exception.
\<close>

theorem strict_date_parsing:
  "(denotes_calendar_date v \<longleftrightarrow>
      matches_D_MM_YYYY v \<and>
      (\<exists>dd mm yyyy. split_D_MM_YYYY v = Some (dd, mm, yyyy) \<and>
         1 \<le> number_of mm \<and> number_of mm \<le> 12 \<and> 1 \<le> number_of dd \<and>
         number_of dd \<le> daysInMonth (number_of yyyy) (number_of mm))) \<and>
   (denotes_calendar_date v \<longrightarrow>
      isValid (moment_strict v) \<and>
      receivedDate_text (moment_strict v) = iso_of_D_MM_YYYY v \<and>
      (\<exists>dd mm yyyy. split_D_MM_YYYY v = Some (dd, mm, yyyy) \<and>
         moment_strict v = Valid (number_of yyyy) (number_of mm) (number_of dd))) \<and>
   (\<not> denotes_calendar_date v \<longrightarrow>
      moment_strict v = Invalid \<and> \<not> isValid (moment_strict v) \<and>
      receivedDate_text (moment_strict v) = [])"
proof -
  have a: "denotes_calendar_date v \<longleftrightarrow>
      matches_D_MM_YYYY v \<and>
      (\<exists>dd mm yyyy. split_D_MM_YYYY v = Some (dd, mm, yyyy) \<and>
         1 \<le> number_of mm \<and> number_of mm \<le> 12 \<and> 1 \<le> number_of dd \<and>
         number_of dd \<le> daysInMonth (number_of yyyy) (number_of mm))"
    by (auto simp: denotes_calendar_date_def matches_D_MM_YYYY_def split: option.splits)
  have b: "denotes_calendar_date v \<longrightarrow>
      isValid (moment_strict v) \<and>
      receivedDate_text (moment_strict v) = iso_of_D_MM_YYYY v \<and>
      (\<exists>dd mm yyyy. split_D_MM_YYYY v = Some (dd, mm, yyyy) \<and>
         moment_strict v = Valid (number_of yyyy) (number_of mm) (number_of dd))"
  proof
    assume d: "denotes_calendar_date v"
    then obtain dd mm yyyy where sp: "split_D_MM_YYYY v = Some (dd, mm, yyyy)"
      by (auto simp: denotes_calendar_date_def split: option.splits)
    with d have "moment_strict v = Valid (number_of yyyy) (number_of mm) (number_of dd)"
      by (simp add: moment_strict_closed)
    with sp receivedDate_text_denotes [OF d]
    show "isValid (moment_strict v) \<and>
      receivedDate_text (moment_strict v) = iso_of_D_MM_YYYY v \<and>
      (\<exists>dd mm yyyy. split_D_MM_YYYY v = Some (dd, mm, yyyy) \<and>
         moment_strict v = Valid (number_of yyyy) (number_of mm) (number_of dd))"
      by (simp add: isValid_def)
  qed
  have c: "\<not> denotes_calendar_date v \<longrightarrow>
      moment_strict v = Invalid \<and> \<not> isValid (moment_strict v) \<and>
      receivedDate_text (moment_strict v) = []"
    by (simp add: moment_strict_closed receivedDate_text_def isValid_def split: option.splits)
  from a b c show ?thesis by (simp only: simp_thms)
qed

theorem strict_date_parsing_witness:
  "denotes_calendar_date (js ''3/04/2019'') \<and> denotes_calendar_date (js ''03/04/2019'') \<and>
   \<not> denotes_calendar_date (js ''3/4/2019'') \<and> \<not> denotes_calendar_date (js ''29/02/2019'') \<and>
   isValid (moment_strict (js ''3/04/2019'')) \<and>
   receivedDate_text (moment_strict (js ''3/04/2019'')) = js ''2019-04-03'' \<and>
   receivedDate_text (moment_strict (js ''03/04/2019'')) = js ''2019-04-03'' \<and>
   moment_strict (js ''3/4/2019'') = Invalid \<and>
   receivedDate_text (moment_strict (js ''29/02/2019'')) = []"
proof -
  have h: "denotes_calendar_date (js ''3/04/2019'')" "denotes_calendar_date (js ''03/04/2019'')"
    "\<not> denotes_calendar_date (js ''3/4/2019'')" "\<not> denotes_calendar_date (js ''29/02/2019'')"
    by code_simp+
  have i: "iso_of_D_MM_YYYY (js ''3/04/2019'') = js ''2019-04-03''"
    "iso_of_D_MM_YYYY (js ''03/04/2019'') = js ''2019-04-03''"
    by code_simp+
  from strict_date_parsing [of "js ''3/04/2019''"] h(1) have c1: "isValid (moment_strict (js ''3/04/2019''))"
    "receivedDate_text (moment_strict (js ''3/04/2019'')) = iso_of_D_MM_YYYY (js ''3/04/2019'')"
    by blast+
  from strict_date_parsing [of "js ''03/04/2019''"] h(2) have c2:
    "receivedDate_text (moment_strict (js ''03/04/2019'')) = iso_of_D_MM_YYYY (js ''03/04/2019'')"
    by blast
  from strict_date_parsing [of "js ''3/4/2019''"] h(3) have c3: "moment_strict (js ''3/4/2019'') = Invalid"
    by blast
  from strict_date_parsing [of "js ''29/02/2019''"] h(4) have c4:
    "receivedDate_text (moment_strict (js ''29/02/2019'')) = []"
    by blast
  from h c1 c2 c3 c4 show ?thesis unfolding i by blast
qed


end
